theory Spec2Isabelle
  imports Main "HOL-Library.AList"
begin

section \<open>Python values, errors and the external collaborators\<close>

text \<open>
  The values that flow through \<^verbatim>\<open>param.py\<close>. \<open>NOTSET\<close> is the sentinel of
  \<^verbatim>\<open>airflow.utils.types\<close>, distinct from \<open>PyNone\<close>. A \<open>Param\<close> object is a
  reference into the heap (objects are shared and mutated in place); \<open>PyObject\<close>
  stands for any other object (a set, a datetime, ...). A Python \<^verbatim>\<open>dict\<close> is an
  association list in insertion order.
\<close>

datatype pyval =
    NOTSET
  | PyNone
  | PyBool bool
  | PyInt int
  | PyStr string
  | PyList "pyval list"
  | PyDict "(string \<times> pyval) list"
  | PyParam nat
  | PyObject nat

text \<open>The exceptions raised in \<^verbatim>\<open>param.py\<close>, each with its message. \<open>ValidatorFault\<close> is
  any exception of \<^verbatim>\<open>jsonschema.validate\<close> other than \<^verbatim>\<open>ValidationError\<close> (for
  instance \<^verbatim>\<open>SchemaError\<close>), which \<^verbatim>\<open>Param.resolve\<close> does not catch.\<close>

datatype error =
    ParamValidationError string
  | TypeError string
  | KeyError string
  | AirflowException string
  | ValidatorFault string

text \<open>What \<^verbatim>\<open>jsonschema.validate(value, schema, format_checker=FormatChecker())\<close> does:
  it returns, raises \<^verbatim>\<open>ValidationError\<close> (\<open>Invalid\<close> carries \<^verbatim>\<open>str(err)\<close>), or raises
  something else.\<close>

datatype verdict = Valid | Invalid string | Fault string

text \<open>
  The libraries and the configuration that \<^verbatim>\<open>param.py\<close> calls but does not define:
  whether \<^verbatim>\<open>json.dumps(value)\<close> succeeds, \<^verbatim>\<open>jsonschema.validate\<close>, Python's
  \<^verbatim>\<open>str()\<close> as used by the f-strings, and \<^verbatim>\<open>conf.getboolean(section, key)\<close>.
  Every operation takes them as a parameter, so the theorems hold for any of them.
\<close>

record env =
  json_dumps_ok :: "pyval \<Rightarrow> bool"
  jsonschema_validate :: "pyval \<Rightarrow> pyval \<Rightarrow> verdict"
  py_str :: "pyval \<Rightarrow> string"
  conf_getboolean :: "string \<Rightarrow> string \<Rightarrow> bool"

section \<open>Param\<close>

record param =
  pvalue :: pyval
  description :: pyval
  schema :: pyval

text \<open>The heap of \<open>Param\<close> objects: \<open>cells\<close> at a reference is the object's state,
  \<open>next_ref\<close> the first reference not yet allocated.\<close>

record heap =
  cells :: "nat \<Rightarrow> param"
  next_ref :: nat

definition new_Param :: "param \<Rightarrow> heap \<Rightarrow> nat \<times> heap" where
  "new_Param p h =
     (next_ref h, h\<lparr>cells := (cells h)(next_ref h := p), next_ref := Suc (next_ref h)\<rparr>)"

definition Param_version :: int where
  "Param_version = 1"

definition not_serializable_msg :: "env \<Rightarrow> pyval \<Rightarrow> string" where
  "not_serializable_msg E v =
     ''All provided parameters must be json-serializable. The value '' @ [CHR 0x27]
       @ py_str E v @ [CHR 0x27] @ '' is not serializable.''"

definition check_json :: "env \<Rightarrow> pyval \<Rightarrow> error + unit" where
  "check_json E v =
     (if json_dumps_ok E v then Inr ()
      else Inl (ParamValidationError (not_serializable_msg E v)))"

text \<open>\<^verbatim>\<open>Param.__init__(default, description, **kwargs)\<close>: the state of the new object,
  or the exception of \<^verbatim>\<open>_check_json\<close>.\<close>

definition Param_init :: "env \<Rightarrow> pyval \<Rightarrow> pyval \<Rightarrow> (string \<times> pyval) list \<Rightarrow> error + param" where
  "Param_init E dflt descr kwargs =
     (case (if dflt \<noteq> NOTSET then check_json E dflt else Inr ()) of
        Inl e \<Rightarrow> Inl e
      | Inr _ \<Rightarrow>
          Inr \<lparr>pvalue = dflt, description = descr,
               schema = (case map_of kwargs ''schema'' of
                           Some s \<Rightarrow> s
                         | None \<Rightarrow> PyDict kwargs)\<rparr>)"

definition no_value_msg :: string where
  "no_value_msg = ''No value passed and Param has no default value''"

text \<open>\<^verbatim>\<open>Param.resolve(value, suppress_exception)\<close> on the object at reference \<open>self\<close>:
  the result or exception, and the heap afterwards.\<close>

definition Param_resolve :: "env \<Rightarrow> nat \<Rightarrow> pyval \<Rightarrow> bool \<Rightarrow> heap \<Rightarrow> (error + pyval) \<times> heap" where
  "Param_resolve E self v suppress h =
     (case (if v \<noteq> NOTSET then check_json E v else Inr ()) of
        Inl e \<Rightarrow> (Inl e, h)
      | Inr _ \<Rightarrow>
          (let final_val = (if v = NOTSET then pvalue (cells h self) else v) in
           if final_val = NOTSET then
             (if suppress then (Inr PyNone, h)
              else (Inl (ParamValidationError no_value_msg), h))
           else
             (case jsonschema_validate E final_val (schema (cells h self)) of
                Invalid err \<Rightarrow>
                  (if suppress then (Inr PyNone, h)
                   else (Inl (ParamValidationError err), h))
              | Fault err \<Rightarrow> (Inl (ValidatorFault err), h)
              | Valid \<Rightarrow>
                  (Inr final_val,
                   h\<lparr>cells := (cells h)(self := (cells h self)\<lparr>pvalue := final_val\<rparr>)\<rparr>))))"

text \<open>\<^verbatim>\<open>Param.serialize\<close> and \<^verbatim>\<open>Param.deserialize\<close>; a missing key of \<open>data\<close> is a
  \<^verbatim>\<open>KeyError\<close>.\<close>

definition Param_serialize :: "param \<Rightarrow> (string \<times> pyval) list" where
  "Param_serialize p =
     [(''value'', pvalue p), (''description'', description p), (''schema'', schema p)]"

definition dict_get :: "(string \<times> pyval) list \<Rightarrow> string \<Rightarrow> error + pyval" where
  "dict_get d k = (case map_of d k of None \<Rightarrow> Inl (KeyError k) | Some v \<Rightarrow> Inr v)"

definition version_msg :: string where
  "version_msg = ''serialized version > class version''"

definition Param_deserialize :: "env \<Rightarrow> (string \<times> pyval) list \<Rightarrow> int \<Rightarrow> error + param" where
  "Param_deserialize E data version =
     (if version > Param_version then Inl (TypeError version_msg)
      else
        (case dict_get data ''value'' of
           Inl e \<Rightarrow> Inl e
         | Inr v \<Rightarrow>
             (case dict_get data ''description'' of
                Inl e \<Rightarrow> Inl e
              | Inr d \<Rightarrow>
                  (case dict_get data ''schema'' of
                     Inl e \<Rightarrow> Inl e
                   | Inr s \<Rightarrow> Param_init E v d [(''schema'', s)]))))"

section \<open>ParamsDict\<close>

text \<open>A \<open>ParamsDict\<close> holds \<^verbatim>\<open>__dict\<close>, from keys to \<open>Param\<close> objects (references into
  the heap), and its \<^verbatim>\<open>suppress_exception\<close> flag.\<close>

record paramsdict =
  dict :: "(string \<times> nat) list"
  suppress_exception :: bool

definition ParamsDict_version :: int where
  "ParamsDict_version = 1"

text \<open>\<^verbatim>\<open>isinstance(v, Param)\<close>, with the object when it holds.\<close>

fun as_Param :: "pyval \<Rightarrow> nat option" where
  "as_Param (PyParam a) = Some a"
| "as_Param _ = None"

text \<open>The comprehension of \<^verbatim>\<open>ParamsDict.__init__\<close>:
  \<^verbatim>\<open>{k: v if isinstance(v, Param) else Param(v) for k, v in dict_obj.items()}\<close>.\<close>

fun wrap_items :: "env \<Rightarrow> (string \<times> pyval) list \<Rightarrow> heap \<Rightarrow> (error + (string \<times> nat) list) \<times> heap" where
  "wrap_items E [] h = (Inr [], h)"
| "wrap_items E ((k, v) # kvs) h =
     (case as_Param v of
        Some a \<Rightarrow>
          (case wrap_items E kvs h of
             (Inl e, h') \<Rightarrow> (Inl e, h')
           | (Inr d, h') \<Rightarrow> (Inr ((k, a) # d), h'))
      | None \<Rightarrow>
          (case Param_init E v PyNone [] of
             Inl e \<Rightarrow> (Inl e, h)
           | Inr p \<Rightarrow>
               (case new_Param p h of
                  (a, h1) \<Rightarrow>
                    (case wrap_items E kvs h1 of
                       (Inl e, h') \<Rightarrow> (Inl e, h')
                     | (Inr d, h') \<Rightarrow> (Inr ((k, a) # d), h')))))"

definition ParamsDict_init :: "env \<Rightarrow> (string \<times> pyval) list option \<Rightarrow> bool \<Rightarrow> heap \<Rightarrow> (error + paramsdict) \<times> heap" where
  "ParamsDict_init E dict_obj suppress h =
     (case wrap_items E (case dict_obj of None \<Rightarrow> [] | Some d \<Rightarrow> d) h of
        (Inl e, h') \<Rightarrow> (Inl e, h')
      | (Inr d, h') \<Rightarrow> (Inr \<lparr>dict = d, suppress_exception = suppress\<rparr>, h'))"

text \<open>The \<^verbatim>\<open>except ParamValidationError as ve: raise ParamValidationError(f"Invalid input
  for param {key}: {ve}")\<close> of \<^verbatim>\<open>__setitem__\<close> and \<^verbatim>\<open>validate\<close>; any other exception
  passes through.\<close>

definition invalid_input_msg :: "string \<Rightarrow> string \<Rightarrow> string" where
  "invalid_input_msg key ve = ''Invalid input for param '' @ key @ '': '' @ ve"

fun annotate :: "string \<Rightarrow> error \<Rightarrow> error" where
  "annotate key (ParamValidationError ve) = ParamValidationError (invalid_input_msg key ve)"
| "annotate key e = e"

text \<open>\<^verbatim>\<open>ParamsDict.__setitem__(key, value)\<close>. The collection is mutated in place: the
  result is the exception if any, the collection and the heap afterwards.\<close>

definition ParamsDict_setitem :: "env \<Rightarrow> string \<Rightarrow> pyval \<Rightarrow> paramsdict \<Rightarrow> heap \<Rightarrow> (error + unit) \<times> paramsdict \<times> heap" where
  "ParamsDict_setitem E key v self h =
     (case as_Param v of
        Some a \<Rightarrow> (Inr (), self\<lparr>dict := AList.update key a (dict self)\<rparr>, h)
      | None \<Rightarrow>
          (case map_of (dict self) key of
             Some a \<Rightarrow>
               (case Param_resolve E a v (suppress_exception self) h of
                  (Inl e, h') \<Rightarrow> (Inl (annotate key e), self, h')
                | (Inr _, h') \<Rightarrow> (Inr (), self\<lparr>dict := AList.update key a (dict self)\<rparr>, h'))
           | None \<Rightarrow>
               (case Param_init E v PyNone [] of
                  Inl e \<Rightarrow> (Inl e, self, h)
                | Inr p \<Rightarrow>
                    (case new_Param p h of
                       (a, h') \<Rightarrow> (Inr (), self\<lparr>dict := AList.update key a (dict self)\<rparr>, h')))))"

text \<open>\<^verbatim>\<open>ParamsDict.__getitem__(key)\<close> and \<^verbatim>\<open>get_param(key)\<close>.\<close>

definition ParamsDict_getitem :: "env \<Rightarrow> string \<Rightarrow> paramsdict \<Rightarrow> heap \<Rightarrow> (error + pyval) \<times> heap" where
  "ParamsDict_getitem E key self h =
     (case map_of (dict self) key of
        None \<Rightarrow> (Inl (KeyError key), h)
      | Some a \<Rightarrow> Param_resolve E a NOTSET (suppress_exception self) h)"

definition get_param :: "string \<Rightarrow> paramsdict \<Rightarrow> error + nat" where
  "get_param key self =
     (case map_of (dict self) key of None \<Rightarrow> Inl (KeyError key) | Some a \<Rightarrow> Inr a)"

text \<open>The positional argument of \<^verbatim>\<open>update\<close>: another \<open>ParamsDict\<close> or a plain
  \<^verbatim>\<open>dict\<close> (whose values may themselves be \<open>Param\<close> objects).\<close>

datatype mapping_arg = ArgParamsDict paramsdict | ArgDict "(string \<times> pyval) list"

text \<open>\<^verbatim>\<open>collections.abc.MutableMapping.update(other, **kwds)\<close>, which \<open>ParamsDict\<close>
  inherits: \<^verbatim>\<open>for key in other: self[key] = other[key]\<close>, then the same for the
  keyword arguments. Reading a key of a \<open>ParamsDict\<close> is its \<^verbatim>\<open>__getitem__\<close>.\<close>

fun setitems :: "env \<Rightarrow> (string \<times> pyval) list \<Rightarrow> paramsdict \<Rightarrow> heap \<Rightarrow> (error + unit) \<times> paramsdict \<times> heap" where
  "setitems E [] self h = (Inr (), self, h)"
| "setitems E ((k, v) # kvs) self h =
     (case ParamsDict_setitem E k v self h of
        (Inl e, self', h') \<Rightarrow> (Inl e, self', h')
      | (Inr _, self', h') \<Rightarrow> setitems E kvs self' h')"

fun setitems_from :: "env \<Rightarrow> paramsdict \<Rightarrow> string list \<Rightarrow> paramsdict \<Rightarrow> heap \<Rightarrow> (error + unit) \<times> paramsdict \<times> heap" where
  "setitems_from E other [] self h = (Inr (), self, h)"
| "setitems_from E other (k # ks) self h =
     (case ParamsDict_getitem E k other h of
        (Inl e, h') \<Rightarrow> (Inl e, self, h')
      | (Inr v, h') \<Rightarrow>
          (case ParamsDict_setitem E k v self h' of
             (Inl e, self', h'') \<Rightarrow> (Inl e, self', h'')
           | (Inr _, self', h'') \<Rightarrow> setitems_from E other ks self' h''))"

definition MutableMapping_update :: "env \<Rightarrow> mapping_arg option \<Rightarrow> (string \<times> pyval) list \<Rightarrow> paramsdict \<Rightarrow> heap \<Rightarrow> (error + unit) \<times> paramsdict \<times> heap" where
  "MutableMapping_update E other kwargs self h =
     (case (case other of
              None \<Rightarrow> (Inr (), self, h)
            | Some (ArgDict d) \<Rightarrow> setitems E d self h
            | Some (ArgParamsDict pd) \<Rightarrow> setitems_from E pd (map fst (dict pd)) self h) of
        (Inl e, self', h') \<Rightarrow> (Inl e, self', h')
      | (Inr _, self', h') \<Rightarrow> setitems E kwargs self' h')"

text \<open>\<^verbatim>\<open>ParamsDict.update(*args, **kwargs)\<close> with at most one positional argument: a
  lone \<open>ParamsDict\<close> hands its \<^verbatim>\<open>__dict\<close> (keys to \<open>Param\<close> objects) to the inherited
  \<^verbatim>\<open>update\<close>.\<close>

definition ParamsDict_update :: "env \<Rightarrow> mapping_arg option \<Rightarrow> (string \<times> pyval) list \<Rightarrow> paramsdict \<Rightarrow> heap \<Rightarrow> (error + unit) \<times> paramsdict \<times> heap" where
  "ParamsDict_update E arg kwargs self h =
     (case arg of
        Some (ArgParamsDict other) \<Rightarrow>
          (if kwargs = [] then
             MutableMapping_update E
               (Some (ArgDict (map (\<lambda>(k, a). (k, PyParam a)) (dict other)))) [] self h
           else MutableMapping_update E arg kwargs self h)
      | _ \<Rightarrow> MutableMapping_update E arg kwargs self h)"

text \<open>\<^verbatim>\<open>ParamsDict.dump\<close>: every entry resolved with \<^verbatim>\<open>suppress_exception=True\<close>.\<close>

fun dump_items :: "env \<Rightarrow> (string \<times> nat) list \<Rightarrow> heap \<Rightarrow> (error + (string \<times> pyval) list) \<times> heap" where
  "dump_items E [] h = (Inr [], h)"
| "dump_items E ((k, a) # kas) h =
     (case Param_resolve E a NOTSET True h of
        (Inl e, h') \<Rightarrow> (Inl e, h')
      | (Inr v, h') \<Rightarrow>
          (case dump_items E kas h' of
             (Inl e, h'') \<Rightarrow> (Inl e, h'')
           | (Inr r, h'') \<Rightarrow> (Inr ((k, v) # r), h'')))"

definition ParamsDict_dump :: "env \<Rightarrow> paramsdict \<Rightarrow> heap \<Rightarrow> (error + (string \<times> pyval) list) \<times> heap" where
  "ParamsDict_dump E self h = dump_items E (dict self) h"

text \<open>\<^verbatim>\<open>ParamsDict.validate\<close>: every entry resolved with the collection's flag; a
  \<^verbatim>\<open>ParamValidationError\<close> is raised again with the key that failed.\<close>

fun validate_items :: "env \<Rightarrow> bool \<Rightarrow> (string \<times> nat) list \<Rightarrow> heap \<Rightarrow> (error + (string \<times> pyval) list) \<times> heap" where
  "validate_items E suppress [] h = (Inr [], h)"
| "validate_items E suppress ((k, a) # kas) h =
     (case Param_resolve E a NOTSET suppress h of
        (Inl e, h') \<Rightarrow> (Inl (annotate k e), h')
      | (Inr v, h') \<Rightarrow>
          (case validate_items E suppress kas h' of
             (Inl e, h'') \<Rightarrow> (Inl e, h'')
           | (Inr r, h'') \<Rightarrow> (Inr ((k, v) # r), h'')))"

definition ParamsDict_validate :: "env \<Rightarrow> paramsdict \<Rightarrow> heap \<Rightarrow> (error + (string \<times> pyval) list) \<times> heap" where
  "ParamsDict_validate E self h = validate_items E (suppress_exception self) (dict self) h"

definition ParamsDict_serialize :: "env \<Rightarrow> paramsdict \<Rightarrow> heap \<Rightarrow> (error + (string \<times> pyval) list) \<times> heap" where
  "ParamsDict_serialize E self h = ParamsDict_dump E self h"

definition ParamsDict_deserialize :: "env \<Rightarrow> (string \<times> pyval) list \<Rightarrow> int \<Rightarrow> heap \<Rightarrow> (error + paramsdict) \<times> heap" where
  "ParamsDict_deserialize E data version h =
     (if version > ParamsDict_version then (Inl (TypeError version_msg), h)
      else ParamsDict_init E (Some data) False h)"

section \<open>DagParam\<close>

text \<open>The run-time context as \<^verbatim>\<open>DagParam.resolve\<close> reads it: \<^verbatim>\<open>context["dag_run"]\<close>
  (the key may be absent) with its \<^verbatim>\<open>conf\<close> (\<^verbatim>\<open>None\<close> or a dict), and
  \<^verbatim>\<open>context["params"]\<close> (the key may be absent).\<close>

record dagrun =
  conf :: "(string \<times> pyval) list option"

record run_context =
  dag_run :: "dagrun option"
  params :: "(string \<times> pyval) list option"

record dagparam =
  dp_name :: string
  dp_default :: pyval
  current_dag :: string

text \<open>The first \<^verbatim>\<open>with contextlib.suppress(KeyError)\<close> block of \<^verbatim>\<open>resolve\<close>: the value it
  returns, or \<open>None\<close> when control falls out of the block (a falsy \<^verbatim>\<open>conf\<close>, or a
  suppressed \<^verbatim>\<open>KeyError\<close>).\<close>

definition from_dag_run_conf :: "string \<Rightarrow> run_context \<Rightarrow> pyval option" where
  "from_dag_run_conf nm ctx =
     (case dag_run ctx of
        None \<Rightarrow> None
      | Some dr \<Rightarrow>
          (case conf dr of
             None \<Rightarrow> None
           | Some c \<Rightarrow> (if c \<noteq> [] then map_of c nm else None)))"

text \<open>The second block: \<^verbatim>\<open>context["params"][self._name]\<close>, a \<^verbatim>\<open>KeyError\<close> suppressed.\<close>

definition from_context_params :: "string \<Rightarrow> run_context \<Rightarrow> pyval option" where
  "from_context_params nm ctx =
     (case params ctx of None \<Rightarrow> None | Some ps \<Rightarrow> map_of ps nm)"

definition no_resolution_msg :: "string \<Rightarrow> string" where
  "no_resolution_msg nm = ''No value could be resolved for parameter '' @ nm"

definition DagParam_resolve :: "dagparam \<Rightarrow> run_context \<Rightarrow> error + pyval" where
  "DagParam_resolve self ctx =
     (case from_dag_run_conf (dp_name self) ctx of
        Some v \<Rightarrow> Inr v
      | None \<Rightarrow>
          (if dp_default self \<noteq> NOTSET then Inr (dp_default self)
           else
             (case from_context_params (dp_name self) ctx of
                Some v \<Rightarrow> Inr v
              | None \<Rightarrow> Inl (AirflowException (no_resolution_msg (dp_name self))))))"

section \<open>process_params\<close>

text \<open>Python truthiness of \<^verbatim>\<open>task.params\<close>: \<^verbatim>\<open>None\<close>, an empty dict and an empty
  \<open>ParamsDict\<close> (\<^verbatim>\<open>__bool__\<close>) are falsy.\<close>

fun truthy :: "mapping_arg option \<Rightarrow> bool" where
  "truthy None = False"
| "truthy (Some (ArgParamsDict pd)) = (dict pd \<noteq> [])"
| "truthy (Some (ArgDict d)) = (d \<noteq> [])"

text \<open>\<^verbatim>\<open>process_params(dag, task, dagrun_conf, suppress_exception)\<close>. \<open>dag_params\<close> is
  \<^verbatim>\<open>dag.params\<close>, \<open>None\<close> when the attribute is missing (the \<^verbatim>\<open>AttributeError\<close> is
  suppressed); \<open>task_params\<close> is \<^verbatim>\<open>task.params\<close>.\<close>

definition process_params :: "env \<Rightarrow> mapping_arg option \<Rightarrow> mapping_arg option \<Rightarrow> (string \<times> pyval) list option \<Rightarrow> bool \<Rightarrow> heap \<Rightarrow> (error + (string \<times> pyval) list) \<times> heap" where
  "process_params E dag_params task_params dagrun_conf suppress h =
     (let dagrun_conf' = (case dagrun_conf of None \<Rightarrow> [] | Some c \<Rightarrow> c) in
      case ParamsDict_init E None suppress h of
        (Inl e, h0) \<Rightarrow> (Inl e, h0)
      | (Inr params0, h0) \<Rightarrow>
          (case (case dag_params of
                   None \<Rightarrow> (Inr (), params0, h0)
                 | Some dp \<Rightarrow> ParamsDict_update E (Some dp) [] params0 h0) of
             (Inl e, params1, h1) \<Rightarrow> (Inl e, h1)
           | (Inr _, params1, h1) \<Rightarrow>
               (case (if truthy task_params
                      then ParamsDict_update E task_params [] params1 h1
                      else (Inr (), params1, h1)) of
                  (Inl e, params2, h2) \<Rightarrow> (Inl e, h2)
                | (Inr _, params2, h2) \<Rightarrow>
                    (case (if conf_getboolean E ''core'' ''dag_run_conf_overrides_params''
                              \<and> dagrun_conf' \<noteq> []
                           then ParamsDict_update E (Some (ArgDict dagrun_conf')) [] params2 h2
                           else (Inr (), params2, h2)) of
                       (Inl e, params3, h3) \<Rightarrow> (Inl e, h3)
                     | (Inr _, params3, h3) \<Rightarrow> ParamsDict_validate E params3 h3))))"

section \<open>A concrete environment for evaluating examples\<close>

text \<open>\<^verbatim>\<open>json.dumps\<close> succeeds on \<^verbatim>\<open>None\<close>, booleans, integers, strings, and on lists
  and string-keyed dicts of such values; it raises on the sentinel and on other objects.\<close>

fun plain_json :: "pyval \<Rightarrow> bool" where
  "plain_json NOTSET = False"
| "plain_json PyNone = True"
| "plain_json (PyBool b) = True"
| "plain_json (PyInt i) = True"
| "plain_json (PyStr s) = True"
| "plain_json (PyList xs) = list_all plain_json xs"
| "plain_json (PyDict kvs) = list_all (\<lambda>kv. plain_json (snd kv)) kvs"
| "plain_json (PyParam a) = False"
| "plain_json (PyObject n) = False"

text \<open>A validator for the smallest schemas: the empty schema accepts every value,
  \<^verbatim>\<open>{"type": "integer"}\<close> accepts integers and \<^verbatim>\<open>{"type": "string"}\<close> strings, as JSON
  Schema says; anything else is reported as a fault of the schema.\<close>

fun type_validate :: "pyval \<Rightarrow> pyval \<Rightarrow> verdict" where
  "type_validate v (PyDict []) = Valid"
| "type_validate v (PyDict [(k, PyStr t)]) =
     (if k = ''type'' \<and> t = ''integer'' then
        (case v of PyInt i \<Rightarrow> Valid | _ \<Rightarrow> Invalid ''value is not of type integer'')
      else if k = ''type'' \<and> t = ''string'' then
        (case v of PyStr s \<Rightarrow> Valid | _ \<Rightarrow> Invalid ''value is not of type string'')
      else Fault ''unsupported schema'')"
| "type_validate v s = Fault ''unsupported schema''"

fun show_val :: "pyval \<Rightarrow> string" where
  "show_val (PyStr s) = s"
| "show_val PyNone = ''None''"
| "show_val (PyBool b) = (if b then ''True'' else ''False'')"
| "show_val v = ''<object>''"

definition sample_env :: "bool \<Rightarrow> env" where
  "sample_env flag =
     \<lparr>json_dumps_ok = plain_json, jsonschema_validate = type_validate,
      py_str = show_val, conf_getboolean = (\<lambda>section key. flag)\<rparr>"

definition empty_heap :: heap where
  "empty_heap = \<lparr>cells = (\<lambda>a. \<lparr>pvalue = NOTSET, description = PyNone, schema = PyDict []\<rparr>),
                 next_ref = 0\<rparr>"

definition int_schema :: pyval where
  "int_schema = PyDict [(''type'', PyStr ''integer'')]"

text \<open>The heap that holds the given objects at the references \<open>0, 1, \<dots>\<close>.\<close>

definition heap_of :: "param list \<Rightarrow> heap" where
  "heap_of ps =
     \<lparr>cells = (\<lambda>a. if a < length ps then ps ! a else cells empty_heap a),
      next_ref = length ps\<rparr>"

section \<open>Notions for stating the precedence of process_params\<close>

text \<open>The value an entry of a source carries: the stored value of a \<open>Param\<close> object in
  the given heap, or the plain value itself.\<close>

definition entry_value :: "heap \<Rightarrow> pyval \<Rightarrow> pyval" where
  "entry_value h v = (case as_Param v of Some a \<Rightarrow> pvalue (cells h a) | None \<Rightarrow> v)"

text \<open>The key/value pairs that \<open>update\<close> assigns for a source: none for a missing
  source, the \<^verbatim>\<open>__dict\<close> of a \<open>ParamsDict\<close>, the items of a plain dict.\<close>

fun source_items :: "mapping_arg option \<Rightarrow> (string \<times> pyval) list" where
  "source_items None = []"
| "source_items (Some (ArgParamsDict pd)) = map (\<lambda>(k, a). (k, PyParam a)) (dict pd)"
| "source_items (Some (ArgDict d)) = d"

text \<open>The stored value of the entry of a collection under a key, if there is one.\<close>

definition stored :: "paramsdict \<Rightarrow> heap \<Rightarrow> string \<Rightarrow> pyval option" where
  "stored self h k = map_option (\<lambda>a. pvalue (cells h a)) (map_of (dict self) k)"

text \<open>The run configuration that \<open>process_params\<close> merges: \<^verbatim>\<open>dagrun_conf or {}\<close> when
  \<^verbatim>\<open>dag_run_conf_overrides_params\<close> is set, nothing otherwise.\<close>

definition run_items :: "env \<Rightarrow> (string \<times> pyval) list option \<Rightarrow> (string \<times> pyval) list" where
  "run_items E dagrun_conf =
     (if conf_getboolean E ''core'' ''dag_run_conf_overrides_params''
      then (case dagrun_conf of None \<Rightarrow> [] | Some c \<Rightarrow> c) else [])"

text \<open>What the three sources are taken to be: dicts have distinct keys, no value is the
  \<open>NOTSET\<close> sentinel, the run configuration holds plain values only, every \<open>Param\<close>
  object of the first two sources exists in the heap, and no \<open>Param\<close> object is bound
  to two different keys.\<close>

definition well_formed_sources :: "heap \<Rightarrow> (string \<times> pyval) list \<Rightarrow> (string \<times> pyval) list \<Rightarrow> (string \<times> pyval) list \<Rightarrow> bool" where
  "well_formed_sources h dag_items task_items conf_items \<longleftrightarrow>
     distinct (map fst dag_items) \<and> distinct (map fst task_items) \<and> distinct (map fst conf_items)
   \<and> (\<forall>(k, v) \<in> set (dag_items @ task_items @ conf_items). v \<noteq> NOTSET)
   \<and> (\<forall>(k, v) \<in> set conf_items. as_Param v = None)
   \<and> (\<forall>(k, v) \<in> set (dag_items @ task_items). \<forall>a. as_Param v = Some a \<longrightarrow> a < next_ref h)
   \<and> (\<forall>(k1, v1) \<in> set (dag_items @ task_items). \<forall>(k2, v2) \<in> set (dag_items @ task_items).
        as_Param v1 \<noteq> None \<and> as_Param v1 = as_Param v2 \<longrightarrow> k1 = k2)"

text \<open>The invariant of the merge loop. \<open>G\<close> are the (key, object) pairs of the sources and
  \<open>N\<close> the first free reference before the merge: every entry of the collection is such
  a pair or an object allocated since, and no object is bound to two keys.\<close>

definition given_ok :: "(string \<times> nat) set \<Rightarrow> nat \<Rightarrow> bool" where
  "given_ok G N \<longleftrightarrow>
     (\<forall>k a. (k, a) \<in> G \<longrightarrow> a < N) \<and>
     (\<forall>k1 k2 a. (k1, a) \<in> G \<and> (k2, a) \<in> G \<longrightarrow> k1 = k2)"

definition dict_inv :: "(string \<times> nat) set \<Rightarrow> nat \<Rightarrow> paramsdict \<Rightarrow> heap \<Rightarrow> bool" where
  "dict_inv G N self h \<longleftrightarrow>
     N \<le> next_ref h \<and>
     (\<forall>k a. map_of (dict self) k = Some a \<longrightarrow> a < next_ref h \<and> ((k, a) \<in> G \<or> N \<le> a)) \<and>
     (\<forall>k1 k2 a. map_of (dict self) k1 = Some a \<and> map_of (dict self) k2 = Some a \<longrightarrow> k1 = k2)"

text \<open>The entry of a collection under a key, as the pair of its schema and its stored
  value.\<close>

definition entry_state :: "paramsdict \<Rightarrow> heap \<Rightarrow> string \<Rightarrow> (pyval \<times> pyval) option" where
  "entry_state self h k =
     map_option (\<lambda>a. (schema (cells h a), pvalue (cells h a))) (map_of (dict self) k)"

text \<open>The entry under a key after \<^verbatim>\<open>self[key] = v\<close> has returned: a \<open>Param\<close> object
  replaces the entry; a plain value replaces the stored value of an existing entry when
  the validator accepts it against that entry's schema and leaves the entry as it was
  otherwise (which \<^verbatim>\<open>__setitem__\<close> survives only with \<^verbatim>\<open>suppress_exception\<close>); with no
  entry yet, the plain value is wrapped in a \<open>Param\<close> with the empty schema.\<close>

definition assigned :: "env \<Rightarrow> heap \<Rightarrow> (pyval \<times> pyval) option \<Rightarrow> pyval \<Rightarrow> (pyval \<times> pyval) option" where
  "assigned E h entry v =
     (case as_Param v of
        Some a \<Rightarrow> Some (schema (cells h a), pvalue (cells h a))
      | None \<Rightarrow>
          (case entry of
             None \<Rightarrow> Some (PyDict [], v)
           | Some (s, x) \<Rightarrow>
               if jsonschema_validate E v s = Valid then Some (s, v) else Some (s, x)))"


text \<open>What \<^verbatim>\<open>validate\<close> returns for an entry when it returns: the stored value if it
  is set and satisfies the schema, \<^verbatim>\<open>None\<close> otherwise (lenient only).\<close>

definition read_entry :: "env \<Rightarrow> (pyval \<times> pyval) option \<Rightarrow> pyval option" where
  "read_entry E entry =
     map_option (\<lambda>(s, x). if x \<noteq> NOTSET \<and> jsonschema_validate E x s = Valid then x else PyNone)
       entry"

text \<open>The three layers applied to one key in the order of \<open>process_params\<close>: workflow
  level, step level, run configuration.\<close>

definition layer :: "env \<Rightarrow> heap \<Rightarrow> (pyval \<times> pyval) option \<Rightarrow> pyval option \<Rightarrow> (pyval \<times> pyval) option" where
  "layer E h entry item = (case item of None \<Rightarrow> entry | Some v \<Rightarrow> assigned E h entry v)"

definition layered :: "env \<Rightarrow> heap \<Rightarrow> (string \<times> pyval) list \<Rightarrow> (string \<times> pyval) list \<Rightarrow> (string \<times> pyval) list \<Rightarrow> string \<Rightarrow> (pyval \<times> pyval) option" where
  "layered E h dag_items task_items conf_items k =
     layer E h (layer E h (layer E h None (map_of dag_items k)) (map_of task_items k))
       (map_of conf_items k)"

text \<open>The value that an item carries is set and passes the schema it will be read
  against: the item's own schema for a \<open>Param\<close> object, the schema of the entry below for
  a plain value, the empty schema when there is no entry below.\<close>

definition accepted :: "env \<Rightarrow> heap \<Rightarrow> (pyval \<times> pyval) option \<Rightarrow> pyval \<Rightarrow> bool" where
  "accepted E h entry v \<longleftrightarrow>
     entry_value h v \<noteq> NOTSET \<and>
     jsonschema_validate E (entry_value h v)
       (case as_Param v of
          Some a \<Rightarrow> schema (cells h a)
        | None \<Rightarrow> (case entry of None \<Rightarrow> PyDict [] | Some (s, x) \<Rightarrow> s)) = Valid"

text \<open>Modelled from the spec: \<^verbatim>\<open>jsonschema\<close> is not part of the repository; the spec
  (section 3) says that an absent or empty schema accepts any JSON-serializable value,
  which is what JSON Schema means by \<^verbatim>\<open>{}\<close>. An environment may or may not satisfy it.\<close>

definition empty_schema_accepts :: "env \<Rightarrow> bool" where
  "empty_schema_accepts E \<longleftrightarrow>
     (\<forall>w. json_dumps_ok E w \<longrightarrow> jsonschema_validate E w (PyDict []) = Valid)"


section \<open>Param: construction, resolution, serialization\<close>

lemma Param_resolve_valid:
  "v = NOTSET \<or> json_dumps_ok E v \<Longrightarrow>
   final_val = (if v = NOTSET then pvalue (cells h a) else v) \<Longrightarrow>
   final_val \<noteq> NOTSET \<Longrightarrow>
   jsonschema_validate E final_val (schema (cells h a)) = Valid \<Longrightarrow>
   Param_resolve E a v suppress h =
     (Inr final_val, h\<lparr>cells := (cells h)(a := (cells h a)\<lparr>pvalue := final_val\<rparr>)\<rparr>)"
  by (auto simp add: Param_resolve_def check_json_def Let_def)

lemma Param_resolve_invalid:
  "v = NOTSET \<or> json_dumps_ok E v \<Longrightarrow>
   final_val = (if v = NOTSET then pvalue (cells h a) else v) \<Longrightarrow>
   final_val \<noteq> NOTSET \<Longrightarrow>
   jsonschema_validate E final_val (schema (cells h a)) = Invalid msg \<Longrightarrow>
   Param_resolve E a v suppress h =
     (if suppress then Inr PyNone else Inl (ParamValidationError msg), h)"
  by (auto simp add: Param_resolve_def check_json_def Let_def)

lemma Param_resolve_error_heap:
  "Param_resolve E a v suppress h = (Inl e, h') \<Longrightarrow> h' = h"
  by (auto simp add: Param_resolve_def check_json_def Let_def
           split: if_splits verdict.splits)

lemma key_in_invalid_input_msg:
  "\<exists>pre post. invalid_input_msg key ve = pre @ key @ post"
  unfolding invalid_input_msg_def by blast

lemma wrap_items_error:
  "wrap_items E kvs h = (Inl e, h') \<Longrightarrow> \<exists>m. e = ParamValidationError m"
  by (induction kvs arbitrary: h e h')
     (auto simp add: Param_init_def check_json_def new_Param_def
           split: option.splits sum.splits prod.splits if_splits)

lemma Param_init_no_schema:
  assumes "Param_init E dflt descr [] = Inr p"
  shows "p = \<lparr>pvalue = dflt, description = descr, schema = PyDict []\<rparr>
     \<and> (dflt = NOTSET \<or> json_dumps_ok E dflt)"
proof (cases "dflt = NOTSET")
  case True
  with assms show ?thesis by (simp add: Param_init_def)
next
  case False
  with assms show ?thesis
    by (cases "json_dumps_ok E dflt") (simp_all add: Param_init_def check_json_def)
qed

text \<open>
  C8. Constructing a \<open>Param\<close> raises the not-serializable \<open>ParamValidationError\<close> when
  the default is not \<open>NOTSET\<close> and \<^verbatim>\<open>json.dumps\<close> fails on it; otherwise it succeeds
  and stores the default as it is. The outcome is the same whatever the validator is
  (construction never validates the default against the schema), and with no keyword
  argument the schema is the empty dict. With a validator that accepts every
  JSON-serializable value against the empty schema, as JSON Schema says, a \<open>Param\<close>
  constructed without a schema accepts any JSON-serializable candidate: \<open>resolve\<close>
  returns and stores it, in either mode, and returns the default when there is no
  candidate.
\<close>

theorem C8_construct:
  "(dflt \<noteq> NOTSET \<and> \<not> json_dumps_ok E dflt \<longrightarrow>
      Param_init E dflt descr kwargs = Inl (ParamValidationError (not_serializable_msg E dflt)))
 \<and> (dflt = NOTSET \<or> json_dumps_ok E dflt \<longrightarrow>
      Param_init E dflt descr kwargs =
        Inr \<lparr>pvalue = dflt, description = descr,
             schema = (case map_of kwargs ''schema'' of Some s \<Rightarrow> s | None \<Rightarrow> PyDict kwargs)\<rparr>
    \<and> Param_init E dflt descr [] = Inr \<lparr>pvalue = dflt, description = descr, schema = PyDict []\<rparr>)
 \<and> Param_init (E\<lparr>jsonschema_validate := V\<rparr>) dflt descr kwargs = Param_init E dflt descr kwargs
 \<and> (empty_schema_accepts E \<and> Param_init E dflt descr [] = Inr p \<and> cells h a = p \<longrightarrow>
      (v \<noteq> NOTSET \<and> json_dumps_ok E v \<longrightarrow>
         Param_resolve E a v suppress h =
           (Inr v, h\<lparr>cells := (cells h)(a := p\<lparr>pvalue := v\<rparr>)\<rparr>))
    \<and> (dflt \<noteq> NOTSET \<longrightarrow> Param_resolve E a NOTSET suppress h = (Inr dflt, h)))"
proof (intro conjI impI)
  show "dflt \<noteq> NOTSET \<and> \<not> json_dumps_ok E dflt \<Longrightarrow>
      Param_init E dflt descr kwargs = Inl (ParamValidationError (not_serializable_msg E dflt))"
    by (auto simp add: Param_init_def check_json_def)
next
  show "dflt = NOTSET \<or> json_dumps_ok E dflt \<Longrightarrow> Param_init E dflt descr kwargs =
        Inr \<lparr>pvalue = dflt, description = descr,
             schema = (case map_of kwargs ''schema'' of Some s \<Rightarrow> s | None \<Rightarrow> PyDict kwargs)\<rparr>"
    by (auto simp add: Param_init_def check_json_def)
next
  show "dflt = NOTSET \<or> json_dumps_ok E dflt \<Longrightarrow>
      Param_init E dflt descr [] = Inr \<lparr>pvalue = dflt, description = descr, schema = PyDict []\<rparr>"
    by (auto simp add: Param_init_def check_json_def)
next
  show "Param_init (E\<lparr>jsonschema_validate := V\<rparr>) dflt descr kwargs = Param_init E dflt descr kwargs"
    by (auto simp add: Param_init_def check_json_def not_serializable_msg_def)
next
  assume A: "empty_schema_accepts E \<and> Param_init E dflt descr [] = Inr p \<and> cells h a = p"
    and B: "v \<noteq> NOTSET \<and> json_dumps_ok E v"
  from A Param_init_no_schema [of E dflt descr p]
  have p: "p = \<lparr>pvalue = dflt, description = descr, schema = PyDict []\<rparr>" by simp
  from A B have "jsonschema_validate E v (PyDict []) = Valid"
    by (simp add: empty_schema_accepts_def)
  with A B p show "Param_resolve E a v suppress h =
           (Inr v, h\<lparr>cells := (cells h)(a := p\<lparr>pvalue := v\<rparr>)\<rparr>)"
    by (simp add: Param_resolve_def check_json_def Let_def)
next
  assume A: "empty_schema_accepts E \<and> Param_init E dflt descr [] = Inr p \<and> cells h a = p"
    and B: "dflt \<noteq> NOTSET"
  from A Param_init_no_schema [of E dflt descr p]
  have p: "p = \<lparr>pvalue = dflt, description = descr, schema = PyDict []\<rparr>"
    and "dflt = NOTSET \<or> json_dumps_ok E dflt" by simp_all
  with B have ok: "json_dumps_ok E dflt" by simp
  from A ok have v: "jsonschema_validate E dflt (PyDict []) = Valid"
    by (simp add: empty_schema_accepts_def)
  have e: "h\<lparr>cells := (cells h)(a := (cells h a)\<lparr>pvalue := pvalue (cells h a)\<rparr>)\<rparr> = h"
    by simp
  from A B p v e show "Param_resolve E a NOTSET suppress h = (Inr dflt, h)"
    by (simp add: Param_resolve_def Let_def)
qed

theorem C8_construct_witness:
  "Param_init (sample_env True) (PyObject 7) PyNone [(''schema'', int_schema)]
     = Inl (ParamValidationError (not_serializable_msg (sample_env True) (PyObject 7)))
 \<and> Param_init (sample_env True) (PyStr ''abc'') PyNone [(''schema'', int_schema)]
     = Inr \<lparr>pvalue = PyStr ''abc'', description = PyNone, schema = int_schema\<rparr>
 \<and> Param_init (sample_env True) (PyInt 1) PyNone []
     = Inr \<lparr>pvalue = PyInt 1, description = PyNone, schema = PyDict []\<rparr>
 \<and> empty_schema_accepts (sample_env True)
 \<and> fst (Param_resolve (sample_env True) 0 (PyList [PyStr ''a'', PyNone]) False
       (heap_of [\<lparr>pvalue = PyInt 1, description = PyNone, schema = PyDict []\<rparr>]))
     = Inr (PyList [PyStr ''a'', PyNone])
 \<and> Param_resolve (sample_env True) 0 NOTSET False
       (heap_of [\<lparr>pvalue = PyInt 1, description = PyNone, schema = PyDict []\<rparr>])
     = (Inr (PyInt 1), heap_of [\<lparr>pvalue = PyInt 1, description = PyNone, schema = PyDict []\<rparr>])"
proof -
  let ?E = "sample_env True"
  let ?h = "heap_of [\<lparr>pvalue = PyInt 1, description = PyNone, schema = PyDict []\<rparr>]"
  let ?p = "\<lparr>pvalue = PyInt 1, description = PyNone, schema = PyDict []\<rparr>"
  note T = C8_construct [where E = ?E and descr = PyNone and V = type_validate and p = ?p
      and h = ?h and a = 0 and v = "PyList [PyStr ''a'', PyNone]" and suppress = False]
  from T [where dflt = "PyObject 7" and kwargs = "[(''schema'', int_schema)]"]
  have 1: "Param_init ?E (PyObject 7) PyNone [(''schema'', int_schema)]
     = Inl (ParamValidationError (not_serializable_msg ?E (PyObject 7)))"
    by (simp add: sample_env_def)
  from T [where dflt = "PyStr ''abc''" and kwargs = "[(''schema'', int_schema)]"]
  have 2: "Param_init ?E (PyStr ''abc'') PyNone [(''schema'', int_schema)]
     = Inr \<lparr>pvalue = PyStr ''abc'', description = PyNone, schema = int_schema\<rparr>"
    by (simp add: sample_env_def)
  have ok: "PyInt 1 = NOTSET \<or> json_dumps_ok ?E (PyInt 1)" by (simp add: sample_env_def)
  from T [where dflt = "PyInt 1" and kwargs = "[]"] ok
  have 3: "Param_init ?E (PyInt 1) PyNone [] = Inr ?p" by blast
  have acc: "empty_schema_accepts ?E"
    by (simp add: empty_schema_accepts_def sample_env_def)
  have c: "cells ?h 0 = ?p" by (simp add: heap_of_def)
  have cand: "PyList [PyStr ''a'', PyNone] \<noteq> NOTSET
      \<and> json_dumps_ok ?E (PyList [PyStr ''a'', PyNone])"
    by (simp add: sample_env_def)
  from T [where dflt = "PyInt 1" and kwargs = "[]"] acc 3 c cand
  have 4: "Param_resolve ?E 0 (PyList [PyStr ''a'', PyNone]) False ?h =
      (Inr (PyList [PyStr ''a'', PyNone]),
       ?h\<lparr>cells := (cells ?h)(0 := ?p\<lparr>pvalue := PyList [PyStr ''a'', PyNone]\<rparr>)\<rparr>)"
    by blast
  from T [where dflt = "PyInt 1" and kwargs = "[]"] acc 3 c
  have 5: "Param_resolve ?E 0 NOTSET False ?h = (Inr (PyInt 1), ?h)"
    by blast
  from 1 2 3 acc 4 5 show ?thesis by simp
qed

text \<open>
  C3. \<open>resolve\<close> with no candidate on a \<open>Param\<close> whose stored value is \<open>NOTSET\<close> returns
  \<^verbatim>\<open>None\<close> when \<^verbatim>\<open>suppress_exception\<close> is true and raises the no-value
  \<open>ParamValidationError\<close> when it is false. When the final value (the candidate, or the
  stored value if there is no candidate) is set, JSON-serializable and rejected by the
  validator with message \<open>msg\<close>, \<open>resolve\<close> returns \<^verbatim>\<open>None\<close> when lenient and raises
  \<open>ParamValidationError msg\<close> when strict.
\<close>

theorem C3_resolve_missing_or_invalid:
  "(pvalue (cells h a) = NOTSET \<longrightarrow>
      Param_resolve E a NOTSET True h = (Inr PyNone, h)
    \<and> Param_resolve E a NOTSET False h = (Inl (ParamValidationError no_value_msg), h))
 \<and> (final_val = (if v = NOTSET then pvalue (cells h a) else v) \<and> final_val \<noteq> NOTSET
      \<and> json_dumps_ok E final_val
      \<and> jsonschema_validate E final_val (schema (cells h a)) = Invalid msg \<longrightarrow>
      Param_resolve E a v True h = (Inr PyNone, h)
    \<and> Param_resolve E a v False h = (Inl (ParamValidationError msg), h))"
  by (auto simp add: Param_resolve_def check_json_def Let_def)

theorem C3_resolve_missing_or_invalid_witness:
  "Param_resolve (sample_env True) 0 NOTSET True
     (heap_of [\<lparr>pvalue = NOTSET, description = PyNone, schema = int_schema\<rparr>])
     = (Inr PyNone, heap_of [\<lparr>pvalue = NOTSET, description = PyNone, schema = int_schema\<rparr>])
 \<and> Param_resolve (sample_env True) 0 NOTSET False
     (heap_of [\<lparr>pvalue = NOTSET, description = PyNone, schema = int_schema\<rparr>])
     = (Inl (ParamValidationError ''No value passed and Param has no default value''),
        heap_of [\<lparr>pvalue = NOTSET, description = PyNone, schema = int_schema\<rparr>])
 \<and> Param_resolve (sample_env True) 0 (PyStr ''abc'') True
     (heap_of [\<lparr>pvalue = NOTSET, description = PyNone, schema = int_schema\<rparr>])
     = (Inr PyNone, heap_of [\<lparr>pvalue = NOTSET, description = PyNone, schema = int_schema\<rparr>])
 \<and> Param_resolve (sample_env True) 0 (PyStr ''abc'') False
     (heap_of [\<lparr>pvalue = NOTSET, description = PyNone, schema = int_schema\<rparr>])
     = (Inl (ParamValidationError ''value is not of type integer''),
        heap_of [\<lparr>pvalue = NOTSET, description = PyNone, schema = int_schema\<rparr>])"
  using C3_resolve_missing_or_invalid
    [of "heap_of [\<lparr>pvalue = NOTSET, description = PyNone, schema = int_schema\<rparr>]" 0
        "sample_env True" "PyStr ''abc''" "PyStr ''abc''" "''value is not of type integer''"]
  by (simp add: sample_env_def heap_of_def int_schema_def no_value_msg_def)

text \<open>
  C9. A candidate that is not \<open>NOTSET\<close> and on which \<^verbatim>\<open>json.dumps\<close> fails makes
  \<open>resolve\<close> raise the not-serializable \<open>ParamValidationError\<close>, with
  \<^verbatim>\<open>suppress_exception\<close> true as well as false; the heap is unchanged.
\<close>

theorem C9_resolve_not_serializable:
  "v \<noteq> NOTSET \<Longrightarrow> \<not> json_dumps_ok E v \<Longrightarrow>
     Param_resolve E a v True h = (Inl (ParamValidationError (not_serializable_msg E v)), h)
   \<and> Param_resolve E a v False h = (Inl (ParamValidationError (not_serializable_msg E v)), h)"
  by (simp add: Param_resolve_def check_json_def)

theorem C9_resolve_not_serializable_witness:
  "PyObject 7 \<noteq> NOTSET \<and> \<not> json_dumps_ok (sample_env True) (PyObject 7)
   \<and> Param_resolve (sample_env True) 0 (PyObject 7) True empty_heap
       = (Inl (ParamValidationError
            (''All provided parameters must be json-serializable. The value '' @ [CHR 0x27]
              @ ''<object>'' @ [CHR 0x27] @ '' is not serializable.'')), empty_heap)"
  using C9_resolve_not_serializable [of "PyObject 7" "sample_env True" 0 empty_heap]
  by (simp add: sample_env_def not_serializable_msg_def)

text \<open>
  C6. \<open>Param.deserialize\<close> and \<open>ParamsDict.deserialize\<close> raise
  \<^verbatim>\<open>TypeError("serialized version > class version")\<close> exactly when the given version
  is greater than the class version; a version equal to it is accepted.
\<close>

theorem C6_version_gate:
  "(Param_deserialize E data version = Inl (TypeError version_msg)) = (version > Param_version)
 \<and> (fst (ParamsDict_deserialize E data' version h) = Inl (TypeError version_msg))
      = (version > ParamsDict_version)"
proof -
  have a: "(Param_deserialize E data version = Inl (TypeError version_msg)) = (version > Param_version)"
    by (auto simp add: Param_deserialize_def dict_get_def Param_init_def check_json_def
             split: option.splits sum.splits)
  have b: "(fst (ParamsDict_deserialize E data' version h) = Inl (TypeError version_msg))
      = (version > ParamsDict_version)"
    by (auto simp add: ParamsDict_deserialize_def ParamsDict_init_def
             split: prod.splits sum.splits dest: wrap_items_error)
  from a b show ?thesis by simp
qed

text \<open>
  C7. For a value on which \<^verbatim>\<open>json.dumps\<close> succeeds, any description and any schema:
  the \<open>Param\<close> is constructed, and deserializing its serialization at the class version
  gives a \<open>Param\<close> with the same value, description and schema.
\<close>

theorem C7_roundtrip:
  "json_dumps_ok E v \<Longrightarrow>
     \<exists>p. Param_init E v descr [(''schema'', s)] = Inr p
       \<and> Param_deserialize E (Param_serialize p) Param_version = Inr p
       \<and> pvalue p = v \<and> description p = descr \<and> schema p = s"
  by (simp add: Param_init_def check_json_def Param_deserialize_def Param_serialize_def dict_get_def)

theorem C7_roundtrip_witness:
  "json_dumps_ok (sample_env True) (PyInt 5)
 \<and> (\<exists>p. Param_init (sample_env True) (PyInt 5) (PyStr ''five'') [(''schema'', int_schema)] = Inr p
       \<and> Param_deserialize (sample_env True) (Param_serialize p) Param_version = Inr p
       \<and> pvalue p = PyInt 5 \<and> description p = PyStr ''five'' \<and> schema p = int_schema)"
  using C7_roundtrip [of "sample_env True" "PyInt 5" "PyStr ''five''" int_schema]
  by (simp add: sample_env_def)

section \<open>DagParam.resolve\<close>

text \<open>
  C2. \<open>DagParam.resolve\<close> returns the entry of the run's \<^verbatim>\<open>conf\<close> for the name when
  \<^verbatim>\<open>context["dag_run"].conf\<close> exists and has it; otherwise the reference's own default
  when that is not \<open>NOTSET\<close>; otherwise the entry of \<^verbatim>\<open>context["params"]\<close> for the name
  when there is one; otherwise it raises \<open>AirflowException\<close>.
\<close>

theorem C2_DagParam_resolve_precedence:
  "(dag_run ctx = Some dr \<and> conf dr = Some c \<and> map_of c (dp_name self) = Some v \<longrightarrow>
      DagParam_resolve self ctx = Inr v)
 \<and> (\<not> (\<exists>dr c v. dag_run ctx = Some dr \<and> conf dr = Some c \<and> map_of c (dp_name self) = Some v) \<longrightarrow>
      (dp_default self \<noteq> NOTSET \<longrightarrow> DagParam_resolve self ctx = Inr (dp_default self))
    \<and> (dp_default self = NOTSET \<and> params ctx = Some ps \<and> map_of ps (dp_name self) = Some w \<longrightarrow>
          DagParam_resolve self ctx = Inr w)
    \<and> (dp_default self = NOTSET
          \<and> \<not> (\<exists>ps w. params ctx = Some ps \<and> map_of ps (dp_name self) = Some w) \<longrightarrow>
          DagParam_resolve self ctx = Inl (AirflowException (no_resolution_msg (dp_name self)))))"
  by (auto simp add: DagParam_resolve_def from_dag_run_conf_def from_context_params_def
           split: option.splits)

theorem C2_DagParam_resolve_precedence_witness:
  "DagParam_resolve \<lparr>dp_name = ''p'', dp_default = PyStr ''B'', current_dag = ''d''\<rparr>
     \<lparr>dag_run = Some \<lparr>conf = Some [(''p'', PyStr ''A'')]\<rparr>, params = Some [(''p'', PyStr ''C'')]\<rparr>
     = Inr (PyStr ''A'')
 \<and> DagParam_resolve \<lparr>dp_name = ''p'', dp_default = PyStr ''B'', current_dag = ''d''\<rparr>
     \<lparr>dag_run = Some \<lparr>conf = Some [(''q'', PyStr ''A'')]\<rparr>, params = Some [(''p'', PyStr ''C'')]\<rparr>
     = Inr (PyStr ''B'')
 \<and> DagParam_resolve \<lparr>dp_name = ''p'', dp_default = NOTSET, current_dag = ''d''\<rparr>
     \<lparr>dag_run = Some \<lparr>conf = None\<rparr>, params = Some [(''p'', PyStr ''C'')]\<rparr>
     = Inr (PyStr ''C'')
 \<and> DagParam_resolve \<lparr>dp_name = ''p'', dp_default = NOTSET, current_dag = ''d''\<rparr>
     \<lparr>dag_run = None, params = Some [(''q'', PyStr ''C'')]\<rparr>
     = Inl (AirflowException ''No value could be resolved for parameter p'')"
  using
    C2_DagParam_resolve_precedence
      [where self = "\<lparr>dp_name = ''p'', dp_default = PyStr ''B'', current_dag = ''d''\<rparr>"
         and ctx = "\<lparr>dag_run = Some \<lparr>conf = Some [(''p'', PyStr ''A'')]\<rparr>,
                     params = Some [(''p'', PyStr ''C'')]\<rparr>"
         and dr = "\<lparr>conf = Some [(''p'', PyStr ''A'')]\<rparr>" and c = "[(''p'', PyStr ''A'')]"
         and v = "PyStr ''A''"]
    C2_DagParam_resolve_precedence
      [where self = "\<lparr>dp_name = ''p'', dp_default = PyStr ''B'', current_dag = ''d''\<rparr>"
         and ctx = "\<lparr>dag_run = Some \<lparr>conf = Some [(''q'', PyStr ''A'')]\<rparr>,
                     params = Some [(''p'', PyStr ''C'')]\<rparr>"]
    C2_DagParam_resolve_precedence
      [where self = "\<lparr>dp_name = ''p'', dp_default = NOTSET, current_dag = ''d''\<rparr>"
         and ctx = "\<lparr>dag_run = Some \<lparr>conf = None\<rparr>, params = Some [(''p'', PyStr ''C'')]\<rparr>"
         and ps = "[(''p'', PyStr ''C'')]" and w = "PyStr ''C''"]
    C2_DagParam_resolve_precedence
      [where self = "\<lparr>dp_name = ''p'', dp_default = NOTSET, current_dag = ''d''\<rparr>"
         and ctx = "\<lparr>dag_run = None, params = Some [(''q'', PyStr ''C'')]\<rparr>"]
  by (simp add: no_resolution_msg_def)

section \<open>ParamsDict: assignment, reading and update\<close>

lemma setitem_lenient_invalid:
  "suppress_exception self \<Longrightarrow> map_of (dict self) key = Some a \<Longrightarrow>
   as_Param v = None \<Longrightarrow> v \<noteq> NOTSET \<Longrightarrow> json_dumps_ok E v \<Longrightarrow>
   jsonschema_validate E v (schema (cells h a)) = Invalid msg \<Longrightarrow>
   ParamsDict_setitem E key v self h = (Inr (), self, h)"
  using Param_resolve_invalid [of v E v h a msg True]
  by (simp add: ParamsDict_setitem_def update_triv)

lemma getitem_unfold:
  assumes "map_of (dict self) key = Some a"
  shows "ParamsDict_getitem E key self h =
     (if pvalue (cells h a) = NOTSET then
        (if suppress_exception self then (Inr PyNone, h)
         else (Inl (ParamValidationError no_value_msg), h))
      else case jsonschema_validate E (pvalue (cells h a)) (schema (cells h a)) of
             Valid \<Rightarrow> (Inr (pvalue (cells h a)), h)
           | Invalid m \<Rightarrow>
               (if suppress_exception self then (Inr PyNone, h)
                else (Inl (ParamValidationError m), h))
           | Fault m \<Rightarrow> (Inl (ValidatorFault m), h))"
proof -
  have "h\<lparr>cells := (cells h)(a := (cells h a)\<lparr>pvalue := pvalue (cells h a)\<rparr>)\<rparr> = h"
    by simp
  with assms show ?thesis
    by (simp add: ParamsDict_getitem_def Param_resolve_def Let_def split: verdict.splits)
qed



text \<open>
  C4. When the final value (the candidate, or the stored value if there is none) is set
  and the validator accepts it, \<open>resolve\<close> returns it and overwrites the stored value
  with it, leaving the description, the schema and every other object as they were.
  Whenever \<open>resolve\<close> raises, and whenever the validator rejects the final value (in
  either mode), the heap is unchanged. Assigning a plain, JSON-serializable value that
  the schema of the existing entry rejects, in a collection that does not suppress
  exceptions, raises \<open>ParamValidationError\<close> with a message that contains the key, and
  leaves the collection and the heap unchanged.
\<close>

theorem C4_memoization_and_atomicity:
  "((v = NOTSET \<or> json_dumps_ok E v)
      \<and> final_val = (if v = NOTSET then pvalue (cells h a) else v) \<and> final_val \<noteq> NOTSET
      \<and> jsonschema_validate E final_val (schema (cells h a)) = Valid \<longrightarrow>
      (\<exists>h'. Param_resolve E a v suppress h = (Inr final_val, h')
          \<and> pvalue (cells h' a) = final_val
          \<and> description (cells h' a) = description (cells h a)
          \<and> schema (cells h' a) = schema (cells h a)
          \<and> (\<forall>b. b \<noteq> a \<longrightarrow> cells h' b = cells h b)))
 \<and> (Param_resolve E a v suppress h = (Inl e, h') \<longrightarrow> h' = h)
 \<and> ((v = NOTSET \<or> json_dumps_ok E v)
      \<and> final_val = (if v = NOTSET then pvalue (cells h a) else v) \<and> final_val \<noteq> NOTSET
      \<and> jsonschema_validate E final_val (schema (cells h a)) = Invalid msg \<longrightarrow>
      snd (Param_resolve E a v suppress h) = h)
 \<and> (map_of (dict self) key = Some a \<and> \<not> suppress_exception self
      \<and> as_Param v = None \<and> v \<noteq> NOTSET \<and> json_dumps_ok E v
      \<and> jsonschema_validate E v (schema (cells h a)) = Invalid msg \<longrightarrow>
      ParamsDict_setitem E key v self h =
        (Inl (ParamValidationError (invalid_input_msg key msg)), self, h)
      \<and> (\<exists>pre post. invalid_input_msg key msg = pre @ key @ post))"
proof (intro conjI impI)
  assume "(v = NOTSET \<or> json_dumps_ok E v)
      \<and> final_val = (if v = NOTSET then pvalue (cells h a) else v) \<and> final_val \<noteq> NOTSET
      \<and> jsonschema_validate E final_val (schema (cells h a)) = Valid"
  then have "Param_resolve E a v suppress h =
     (Inr final_val, h\<lparr>cells := (cells h)(a := (cells h a)\<lparr>pvalue := final_val\<rparr>)\<rparr>)"
    using Param_resolve_valid by blast
  then show "\<exists>h'. Param_resolve E a v suppress h = (Inr final_val, h')
          \<and> pvalue (cells h' a) = final_val
          \<and> description (cells h' a) = description (cells h a)
          \<and> schema (cells h' a) = schema (cells h a)
          \<and> (\<forall>b. b \<noteq> a \<longrightarrow> cells h' b = cells h b)"
    by simp
next
  assume "Param_resolve E a v suppress h = (Inl e, h')"
  then show "h' = h" by (rule Param_resolve_error_heap)
next
  assume "(v = NOTSET \<or> json_dumps_ok E v)
      \<and> final_val = (if v = NOTSET then pvalue (cells h a) else v) \<and> final_val \<noteq> NOTSET
      \<and> jsonschema_validate E final_val (schema (cells h a)) = Invalid msg"
  then show "snd (Param_resolve E a v suppress h) = h"
    by (auto simp add: Param_resolve_def check_json_def Let_def)
next
  assume A: "map_of (dict self) key = Some a \<and> \<not> suppress_exception self
      \<and> as_Param v = None \<and> v \<noteq> NOTSET \<and> json_dumps_ok E v
      \<and> jsonschema_validate E v (schema (cells h a)) = Invalid msg"
  then have "Param_resolve E a v (suppress_exception self) h = (Inl (ParamValidationError msg), h)"
    using Param_resolve_invalid [of v E v h a msg "suppress_exception self"] by simp
  with A show "ParamsDict_setitem E key v self h =
        (Inl (ParamValidationError (invalid_input_msg key msg)), self, h)"
    by (simp add: ParamsDict_setitem_def)
next
  show "\<exists>pre post. invalid_input_msg key msg = pre @ key @ post"
    by (rule key_in_invalid_input_msg)
qed

theorem C4_memoization_and_atomicity_witness:
  "(\<exists>h'. Param_resolve (sample_env True) 0 (PyInt 2) False
            (heap_of [\<lparr>pvalue = PyInt 1, description = PyNone, schema = int_schema\<rparr>])
            = (Inr (PyInt 2), h')
        \<and> pvalue (cells h' 0) = PyInt 2 \<and> schema (cells h' 0) = int_schema)
 \<and> snd (Param_resolve (sample_env True) 0 (PyStr ''bad'') False
            (heap_of [\<lparr>pvalue = PyInt 1, description = PyNone, schema = int_schema\<rparr>]))
     = heap_of [\<lparr>pvalue = PyInt 1, description = PyNone, schema = int_schema\<rparr>]
 \<and> ParamsDict_setitem (sample_env True) ''x'' (PyStr ''bad'')
       \<lparr>dict = [(''x'', 0)], suppress_exception = False\<rparr>
       (heap_of [\<lparr>pvalue = PyInt 1, description = PyNone, schema = int_schema\<rparr>])
     = (Inl (ParamValidationError ''Invalid input for param x: value is not of type integer''),
        \<lparr>dict = [(''x'', 0)], suppress_exception = False\<rparr>,
        heap_of [\<lparr>pvalue = PyInt 1, description = PyNone, schema = int_schema\<rparr>])"
proof -
  let ?E = "sample_env True"
  let ?h = "heap_of [\<lparr>pvalue = PyInt 1, description = PyNone, schema = int_schema\<rparr>]"
  let ?d = "\<lparr>dict = [(''x'', 0)], suppress_exception = False\<rparr>"
  have valid: "(PyInt 2 = NOTSET \<or> json_dumps_ok ?E (PyInt 2))
      \<and> PyInt 2 = (if PyInt 2 = NOTSET then pvalue (cells ?h 0) else PyInt 2)
      \<and> PyInt 2 \<noteq> NOTSET
      \<and> jsonschema_validate ?E (PyInt 2) (schema (cells ?h 0)) = Valid"
    by (simp add: sample_env_def heap_of_def int_schema_def)
  have invalid: "(PyStr ''bad'' = NOTSET \<or> json_dumps_ok ?E (PyStr ''bad''))
      \<and> PyStr ''bad'' = (if PyStr ''bad'' = NOTSET then pvalue (cells ?h 0) else PyStr ''bad'')
      \<and> PyStr ''bad'' \<noteq> NOTSET
      \<and> jsonschema_validate ?E (PyStr ''bad'') (schema (cells ?h 0))
          = Invalid ''value is not of type integer''"
    by (simp add: sample_env_def heap_of_def int_schema_def)
  have existing: "map_of (dict ?d) ''x'' = Some 0 \<and> \<not> suppress_exception ?d
      \<and> as_Param (PyStr ''bad'') = None \<and> PyStr ''bad'' \<noteq> NOTSET
      \<and> json_dumps_ok ?E (PyStr ''bad'')
      \<and> jsonschema_validate ?E (PyStr ''bad'') (schema (cells ?h 0))
          = Invalid ''value is not of type integer''"
    by (simp add: sample_env_def heap_of_def int_schema_def)
  note T = C4_memoization_and_atomicity
      [where E = ?E and a = 0 and h = ?h and suppress = False and e = "KeyError []"
         and h' = ?h and self = ?d and key = "''x''" and msg = "''value is not of type integer''"]
  from T [where v = "PyInt 2" and final_val = "PyInt 2"] valid
  have 1: "\<exists>h'. Param_resolve ?E 0 (PyInt 2) False ?h = (Inr (PyInt 2), h')
          \<and> pvalue (cells h' 0) = PyInt 2 \<and> schema (cells h' 0) = int_schema"
    by (auto simp add: heap_of_def)
  from T [where v = "PyStr ''bad''" and final_val = "PyStr ''bad''"] invalid
  have 2: "snd (Param_resolve ?E 0 (PyStr ''bad'') False ?h) = ?h"
    by blast
  from T [where v = "PyStr ''bad''" and final_val = "PyStr ''bad''"] existing
  have 3: "ParamsDict_setitem ?E ''x'' (PyStr ''bad'') ?d ?h =
      (Inl (ParamValidationError (invalid_input_msg ''x'' ''value is not of type integer'')), ?d, ?h)"
    by blast
  from 1 2 3 show ?thesis by (simp add: invalid_input_msg_def)
qed

text \<open>
  C10 as the claim states it fails: a \<open>Param\<close> may hold a default that violates its
  own schema (construction never validates). In a collection that suppresses exceptions,
  assigning another violating value to its key raises nothing and keeps the stored
  value \<^verbatim>\<open>"old"\<close>, but reading the key afterwards gives \<^verbatim>\<open>None\<close>, not the old
  value.
\<close>

theorem C10_counterexample:
  "(case ParamsDict_setitem (sample_env True) ''x'' (PyStr ''bad'')
          \<lparr>dict = [(''x'', 0)], suppress_exception = True\<rparr>
          (heap_of [\<lparr>pvalue = PyStr ''old'', description = PyNone, schema = int_schema\<rparr>]) of
      (r, self', h') \<Rightarrow>
        r = Inr () \<and> pvalue (cells h' 0) = PyStr ''old''
        \<and> fst (ParamsDict_getitem (sample_env True) ''x'' self' h') = Inr PyNone
        \<and> fst (ParamsDict_getitem (sample_env True) ''x'' self' h') \<noteq> Inr (PyStr ''old''))"
  by (simp add: ParamsDict_setitem_def ParamsDict_getitem_def Param_resolve_def check_json_def
        sample_env_def heap_of_def int_schema_def Let_def)

text \<open>
  C10, amended. In a collection that suppresses exceptions, assigning to an existing key
  a plain, JSON-serializable value that the entry's schema rejects raises nothing and
  leaves the collection and the heap exactly as they were: the stored value stays the
  previous one. Reading the key afterwards returns the previous value when that is set
  and satisfies the schema, and \<^verbatim>\<open>None\<close> when it is \<open>NOTSET\<close> or itself violates the
  schema.
\<close>

theorem C10_lenient_setitem_keeps_previous:
  assumes "suppress_exception self" and "map_of (dict self) key = Some a"
    and "as_Param v = None" and "v \<noteq> NOTSET" and "json_dumps_ok E v"
    and "jsonschema_validate E v (schema (cells h a)) = Invalid msg"
  shows "ParamsDict_setitem E key v self h = (Inr (), self, h)
    \<and> ParamsDict_getitem E key self h =
        (if pvalue (cells h a) = NOTSET then (Inr PyNone, h)
         else case jsonschema_validate E (pvalue (cells h a)) (schema (cells h a)) of
                Valid \<Rightarrow> (Inr (pvalue (cells h a)), h)
              | Invalid m \<Rightarrow> (Inr PyNone, h)
              | Fault m \<Rightarrow> (Inl (ValidatorFault m), h))"
  using assms setitem_lenient_invalid [OF assms] getitem_unfold [OF assms(2), of E h]
  by (simp split: verdict.splits)

theorem C10_lenient_setitem_keeps_previous_witness:
  "ParamsDict_setitem (sample_env True) ''x'' (PyStr ''bad'')
       \<lparr>dict = [(''x'', 0)], suppress_exception = True\<rparr>
       (heap_of [\<lparr>pvalue = PyInt 1, description = PyNone, schema = int_schema\<rparr>])
     = (Inr (), \<lparr>dict = [(''x'', 0)], suppress_exception = True\<rparr>,
        heap_of [\<lparr>pvalue = PyInt 1, description = PyNone, schema = int_schema\<rparr>])
 \<and> ParamsDict_getitem (sample_env True) ''x''
       \<lparr>dict = [(''x'', 0)], suppress_exception = True\<rparr>
       (heap_of [\<lparr>pvalue = PyInt 1, description = PyNone, schema = int_schema\<rparr>])
     = (Inr (PyInt 1), heap_of [\<lparr>pvalue = PyInt 1, description = PyNone, schema = int_schema\<rparr>])"
  using C10_lenient_setitem_keeps_previous
      [where E = "sample_env True" and a = 0 and v = "PyStr ''bad''"
         and msg = "''value is not of type integer''"
         and key = "''x''" and self = "\<lparr>dict = [(''x'', 0)], suppress_exception = True\<rparr>"
         and h = "heap_of [\<lparr>pvalue = PyInt 1, description = PyNone, schema = int_schema\<rparr>]"]
  by (simp add: sample_env_def heap_of_def int_schema_def)

section \<open>The merge loop: assignments key by key\<close>

lemma given_ok_lt: "given_ok G N \<Longrightarrow> (k, a) \<in> G \<Longrightarrow> a < N"
  by (auto simp add: given_ok_def)

lemma given_ok_inj: "given_ok G N \<Longrightarrow> (k1, a) \<in> G \<Longrightarrow> (k2, a) \<in> G \<Longrightarrow> k1 = k2"
  unfolding given_ok_def by blast

lemma dict_inv_next: "dict_inv G N self h \<Longrightarrow> N \<le> next_ref h"
  by (simp add: dict_inv_def)

lemma dict_inv_alloc: "dict_inv G N self h \<Longrightarrow> map_of (dict self) k = Some a \<Longrightarrow> a < next_ref h"
  by (simp add: dict_inv_def)

lemma dict_inv_origin:
  "dict_inv G N self h \<Longrightarrow> map_of (dict self) k = Some a \<Longrightarrow> (k, a) \<in> G \<or> N \<le> a"
  by (simp add: dict_inv_def)

lemma dict_inv_inj:
  "dict_inv G N self h \<Longrightarrow> map_of (dict self) k1 = Some a \<Longrightarrow> map_of (dict self) k2 = Some a
     \<Longrightarrow> k1 = k2"
  unfolding dict_inv_def by blast

lemma dict_invI:
  "N \<le> next_ref h \<Longrightarrow>
   (\<And>k a. map_of (dict self) k = Some a \<Longrightarrow> a < next_ref h) \<Longrightarrow>
   (\<And>k a. map_of (dict self) k = Some a \<Longrightarrow> (k, a) \<in> G \<or> N \<le> a) \<Longrightarrow>
   (\<And>k1 k2 a. map_of (dict self) k1 = Some a \<Longrightarrow> map_of (dict self) k2 = Some a \<Longrightarrow> k1 = k2) \<Longrightarrow>
   dict_inv G N self h"
  unfolding dict_inv_def by blast

lemma update_eq_process:
  "ParamsDict_update E arg [] self h = setitems E (source_items arg) self h"
proof (cases arg)
  case None
  then show ?thesis by (simp add: ParamsDict_update_def MutableMapping_update_def)
next
  case (Some m)
  then show ?thesis
    by (cases m)
       (simp_all add: ParamsDict_update_def MutableMapping_update_def
          split: prod.splits sum.splits)
qed

lemma setitem_strict_step:
  assumes run: "ParamsDict_setitem E k v self h = (Inr (), self', h')"
    and strict: "\<not> suppress_exception self"
    and inv: "dict_inv G N self h" and G: "given_ok G N"
    and mem: "\<And>a. as_Param v = Some a \<Longrightarrow> (k, a) \<in> G"
    and nn: "v \<noteq> NOTSET"
  shows "dict_inv G N self' h' \<and> suppress_exception self' = suppress_exception self
     \<and> stored self' h' k = Some (entry_value h v)
     \<and> (\<forall>k'. k' \<noteq> k \<longrightarrow> map_of (dict self') k' = map_of (dict self) k')
     \<and> (\<forall>b. b < next_ref h \<longrightarrow> (as_Param v = None \<longrightarrow> map_of (dict self) k \<noteq> Some b)
            \<longrightarrow> cells h' b = cells h b)
     \<and> next_ref h \<le> next_ref h'"
proof -
  consider (adopt) a where "as_Param v = Some a"
    | (existing) a where "as_Param v = None" "map_of (dict self) k = Some a"
    | (fresh) "as_Param v = None" "map_of (dict self) k = None"
    by (cases "as_Param v"; cases "map_of (dict self) k") auto
  then show ?thesis
  proof cases
    case adopt
    from run adopt have s: "self' = self\<lparr>dict := AList.update k a (dict self)\<rparr>" and h: "h' = h"
      by (simp_all add: ParamsDict_setitem_def)
    from mem adopt have kg: "(k, a) \<in> G" by simp
    with G have aN: "a < N" by (auto simp add: given_ok_def)
    have other: "k2 = k" if "map_of (dict self) k2 = Some a" for k2
    proof -
      from dict_inv_origin [OF inv that] aN have "(k2, a) \<in> G" by auto
      with kg G show ?thesis by (blast dest: given_ok_inj)
    qed
    have m: "map_of (dict self') x = (if x = k then Some a else map_of (dict self) x)" for x
      by (simp add: s update_conv')
    have "dict_inv G N self' h'"
    proof (rule dict_invI)
      show "N \<le> next_ref h'" using inv by (simp add: h dict_inv_next)
    next
      fix k' a' assume b: "map_of (dict self') k' = Some a'"
      show "a' < next_ref h'"
      proof (cases "k' = k")
        case True
        with b m have "a' = a" by simp
        with aN dict_inv_next [OF inv] show ?thesis by (simp add: h)
      next
        case False
        with b m have "map_of (dict self) k' = Some a'" by simp
        from dict_inv_alloc [OF inv this] show ?thesis by (simp add: h)
      qed
    next
      fix k' a' assume b: "map_of (dict self') k' = Some a'"
      show "(k', a') \<in> G \<or> N \<le> a'"
      proof (cases "k' = k")
        case True
        with b m have "a' = a" by simp
        with kg True show ?thesis by simp
      next
        case False
        with b m have "map_of (dict self) k' = Some a'" by simp
        from dict_inv_origin [OF inv this] show ?thesis .
      qed
    next
      fix k1 k2 a' assume b1: "map_of (dict self') k1 = Some a'" and b2: "map_of (dict self') k2 = Some a'"
      have k_case: "y = k" if "x = k" "map_of (dict self') x = Some a'" "map_of (dict self') y = Some a'" for x y
      proof (rule ccontr)
        assume ny: "y \<noteq> k"
        from that(1,2) m have "a' = a" by simp
        with that(3) ny m have "map_of (dict self) y = Some a" by simp
        from other [OF this] ny show False by simp
      qed
      show "k1 = k2"
      proof (cases "k1 = k \<or> k2 = k")
        case True
        then show ?thesis using k_case [of k1 k2] k_case [of k2 k1] b1 b2 by blast
      next
        case False
        with b1 b2 m have "map_of (dict self) k1 = Some a'" "map_of (dict self) k2 = Some a'"
          by simp_all
        then show ?thesis by (rule dict_inv_inj [OF inv])
      qed
    qed
    then show ?thesis using adopt
      by (simp add: s h stored_def entry_value_def update_conv')
  next
    case existing
    obtain x h1 where px: "Param_resolve E a v False h = (x, h1)"
      by (cases "Param_resolve E a v False h")
    from run existing strict px have
      sx: "(case x of Inl e \<Rightarrow> (Inl (annotate k e), self, h1)
                    | Inr u \<Rightarrow> (Inr (), self\<lparr>dict := AList.update k a (dict self)\<rparr>, h1))
           = (Inr (), self', h')"
      by (simp add: ParamsDict_setitem_def)
    then obtain r where xr: "x = Inr r" by (cases x) simp_all
    from sx xr existing have s: "self' = self" and hh: "h1 = h'"
      by (simp_all add: update_triv)
    from px xr hh have res: "Param_resolve E a v False h = (Inr r, h')" by simp
    have h: "h' = h\<lparr>cells := (cells h)(a := (cells h a)\<lparr>pvalue := v\<rparr>)\<rparr>"
    proof (cases "jsonschema_validate E v (schema (cells h a))")
      case Valid
      with res nn show ?thesis
        by (auto simp add: Param_resolve_def check_json_def Let_def split: if_splits)
    next
      case (Invalid m)
      with res nn show ?thesis
        by (simp add: Param_resolve_def check_json_def Let_def split: if_splits)
    next
      case (Fault m)
      with res nn show ?thesis
        by (simp add: Param_resolve_def check_json_def Let_def split: if_splits)
    qed
    have "dict_inv G N self' h'"
      using inv by (simp add: dict_inv_def s h)
    then show ?thesis using existing
      by (auto simp add: s h stored_def entry_value_def)
  next
    case fresh
    obtain p where p: "Param_init E v PyNone [] = Inr p"
      using run fresh
      by (cases "Param_init E v PyNone []") (simp_all add: ParamsDict_setitem_def)
    from run fresh p have s: "self' = self\<lparr>dict := AList.update k (next_ref h) (dict self)\<rparr>"
      and h: "h' = h\<lparr>cells := (cells h)(next_ref h := p), next_ref := Suc (next_ref h)\<rparr>"
      by (simp_all add: ParamsDict_setitem_def new_Param_def)
    from p nn have pv: "pvalue p = v"
      by (cases "json_dumps_ok E v") (auto simp add: Param_init_def check_json_def)
    have m: "map_of (dict self') x = (if x = k then Some (next_ref h) else map_of (dict self) x)" for x
      by (simp add: s update_conv')
    have "dict_inv G N self' h'"
    proof (rule dict_invI)
      show "N \<le> next_ref h'" using dict_inv_next [OF inv] by (simp add: h)
    next
      fix k' a' assume b: "map_of (dict self') k' = Some a'"
      show "a' < next_ref h'"
      proof (cases "k' = k")
        case True
        with b m have "a' = next_ref h" by simp
        then show ?thesis by (simp add: h)
      next
        case False
        with b m have "map_of (dict self) k' = Some a'" by simp
        from dict_inv_alloc [OF inv this] show ?thesis by (simp add: h)
      qed
    next
      fix k' a' assume b: "map_of (dict self') k' = Some a'"
      show "(k', a') \<in> G \<or> N \<le> a'"
      proof (cases "k' = k")
        case True
        with b m have "a' = next_ref h" by simp
        with dict_inv_next [OF inv] show ?thesis by simp
      next
        case False
        with b m have "map_of (dict self) k' = Some a'" by simp
        from dict_inv_origin [OF inv this] show ?thesis .
      qed
    next
      fix k1 k2 a' assume b1: "map_of (dict self') k1 = Some a'" and b2: "map_of (dict self') k2 = Some a'"
      have k_case: "y = k" if "x = k" "map_of (dict self') x = Some a'" "map_of (dict self') y = Some a'" for x y
      proof (rule ccontr)
        assume ny: "y \<noteq> k"
        from that(1,2) m have "a' = next_ref h" by simp
        with that(3) ny m have "map_of (dict self) y = Some (next_ref h)" by simp
        from dict_inv_alloc [OF inv this] show False by simp
      qed
      show "k1 = k2"
      proof (cases "k1 = k \<or> k2 = k")
        case True
        then show ?thesis using k_case [of k1 k2] k_case [of k2 k1] b1 b2 by blast
      next
        case False
        with b1 b2 m have "map_of (dict self) k1 = Some a'" "map_of (dict self) k2 = Some a'"
          by simp_all
        then show ?thesis by (rule dict_inv_inj [OF inv])
      qed
    qed
    then show ?thesis using fresh pv
      by (auto simp add: s h stored_def entry_value_def update_conv')
  qed
qed

lemma setitems_strict:
  assumes "setitems E items self h = (Inr (), self', h')"
    and "\<not> suppress_exception self"
    and "dict_inv G N self h" and "given_ok G N"
    and "\<And>k v a. (k, v) \<in> set items \<Longrightarrow> as_Param v = Some a \<Longrightarrow> (k, a) \<in> G"
    and "\<And>k v. (k, v) \<in> set items \<Longrightarrow> v \<noteq> NOTSET"
    and "distinct (map fst items)"
  shows "dict_inv G N self' h' \<and> suppress_exception self' = suppress_exception self
     \<and> (\<forall>k. stored self' h' k =
            (case map_of items k of Some v \<Rightarrow> Some (entry_value h v) | None \<Rightarrow> stored self h k))
     \<and> (\<forall>b. b < next_ref h \<longrightarrow>
            (\<forall>k v. (k, v) \<in> set items \<longrightarrow> as_Param v = None \<longrightarrow> map_of (dict self) k \<noteq> Some b)
            \<longrightarrow> cells h' b = cells h b)
     \<and> next_ref h \<le> next_ref h'"
  using assms
proof (induction items arbitrary: self h)
  case Nil
  then show ?case by simp
next
  case (Cons x rest)
  obtain k0 v0 where x: "x = (k0, v0)" by (cases x)
  obtain r1 self1 h1 where st: "ParamsDict_setitem E k0 v0 self h = (r1, self1, h1)"
    by (cases "ParamsDict_setitem E k0 v0 self h")
  from Cons.prems(1) x st have r1: "r1 = Inr ()"
    by (cases r1) simp_all
  from Cons.prems(1) x st r1 have rest: "setitems E rest self1 h1 = (Inr (), self', h')"
    by simp
  have G: "given_ok G N" by fact
  have inv: "dict_inv G N self h" by fact
  have mem0: "\<And>a. as_Param v0 = Some a \<Longrightarrow> (k0, a) \<in> G"
    using Cons.prems(5) [of k0 v0] x by simp
  have nn0: "v0 \<noteq> NOTSET" using Cons.prems(6) [of k0 v0] x by simp
  have k0_rest: "k0 \<notin> fst ` set rest" and dr: "distinct (map fst rest)"
    using Cons.prems(7) x by simp_all
  have st': "ParamsDict_setitem E k0 v0 self h = (Inr (), self1, h1)" using st r1 by simp
  have step: "dict_inv G N self1 h1 \<and> suppress_exception self1 = suppress_exception self
     \<and> stored self1 h1 k0 = Some (entry_value h v0)
     \<and> (\<forall>k'. k' \<noteq> k0 \<longrightarrow> map_of (dict self1) k' = map_of (dict self) k')
     \<and> (\<forall>b. b < next_ref h \<longrightarrow> (as_Param v0 = None \<longrightarrow> map_of (dict self) k0 \<noteq> Some b)
            \<longrightarrow> cells h1 b = cells h b)
     \<and> next_ref h \<le> next_ref h1"
    using st' Cons.prems(2) inv G mem0 nn0 by (rule setitem_strict_step)
  note inv1 = step [THEN conjunct1]
  note sup1 = step [THEN conjunct2, THEN conjunct1]
  note st0 = step [THEN conjunct2, THEN conjunct2, THEN conjunct1]
  note oth = step [THEN conjunct2, THEN conjunct2, THEN conjunct2, THEN conjunct1, rule_format]
  note fr = step [THEN conjunct2, THEN conjunct2, THEN conjunct2, THEN conjunct2, THEN conjunct1,
      rule_format]
  note nx = step [THEN conjunct2, THEN conjunct2, THEN conjunct2, THEN conjunct2, THEN conjunct2]
  have strict1: "\<not> suppress_exception self1" using sup1 Cons.prems(2) by simp
  have memr: "(k, a) \<in> G" if "(k, v) \<in> set rest" "as_Param v = Some a" for k v a
    using Cons.prems(5) [of k v a] that by simp
  have nnr: "v \<noteq> NOTSET" if "(k, v) \<in> set rest" for k v
    using Cons.prems(6) [of k v] that by simp
  have IH: "dict_inv G N self' h' \<and> suppress_exception self' = suppress_exception self1
     \<and> (\<forall>k. stored self' h' k =
            (case map_of rest k of Some v \<Rightarrow> Some (entry_value h1 v) | None \<Rightarrow> stored self1 h1 k))
     \<and> (\<forall>b. b < next_ref h1 \<longrightarrow>
            (\<forall>k v. (k, v) \<in> set rest \<longrightarrow> as_Param v = None \<longrightarrow> map_of (dict self1) k \<noteq> Some b)
            \<longrightarrow> cells h' b = cells h1 b)
     \<and> next_ref h1 \<le> next_ref h'"
    using rest strict1 inv1 G memr nnr dr by (rule Cons.IH)
  note inv' = IH [THEN conjunct1]
  note sup' = IH [THEN conjunct2, THEN conjunct1]
  note stR = IH [THEN conjunct2, THEN conjunct2, THEN conjunct1, rule_format]
  note frR = IH [THEN conjunct2, THEN conjunct2, THEN conjunct2, THEN conjunct1, rule_format]
  note nxR = IH [THEN conjunct2, THEN conjunct2, THEN conjunct2, THEN conjunct2]
  have not_k0: "map_of (dict self) k0 \<noteq> Some a" if "(k, a) \<in> G" "k \<noteq> k0" for k a
  proof
    assume m: "map_of (dict self) k0 = Some a"
    from given_ok_lt [OF G that(1)] dict_inv_origin [OF inv m] have "(k0, a) \<in> G" by auto
    from given_ok_inj [OF G this that(1)] that(2) show False by simp
  qed
  have ev: "entry_value h1 v = entry_value h v" if "(k, v) \<in> set rest" for k v
  proof (cases "as_Param v")
    case None
    then show ?thesis by (simp add: entry_value_def)
  next
    case (Some a)
    from memr [OF that Some] have kg: "(k, a) \<in> G" .
    from that k0_rest have ne: "k \<noteq> k0" by force
    from given_ok_lt [OF G kg] dict_inv_next [OF inv] have "a < next_ref h" by simp
    from fr [OF this] not_k0 [OF kg ne] have "cells h1 a = cells h a" by blast
    with Some show ?thesis by (simp add: entry_value_def)
  qed
  have keep: "stored self1 h1 k = stored self h k" if "k \<noteq> k0" for k
  proof (cases "map_of (dict self) k")
    case None
    with oth [OF that] show ?thesis by (simp add: stored_def)
  next
    case (Some c)
    have "map_of (dict self) k0 \<noteq> Some c"
      using dict_inv_inj [OF inv Some, of k0] that by auto
    with fr [OF dict_inv_alloc [OF inv Some]] have "cells h1 c = cells h c" by blast
    with oth [OF that] Some show ?thesis by (simp add: stored_def)
  qed
  have view: "stored self' h' k =
      (case map_of (x # rest) k of Some v \<Rightarrow> Some (entry_value h v) | None \<Rightarrow> stored self h k)"
    for k
  proof (cases "k = k0")
    case True
    from k0_rest have "map_of rest k0 = None" by (simp add: map_of_eq_None_iff)
    with stR [of k0] st0 True x show ?thesis by simp
  next
    case False
    show ?thesis
    proof (cases "map_of rest k")
      case None
      with stR [of k] keep [OF False] False x show ?thesis by simp
    next
      case (Some v)
      then have "(k, v) \<in> set rest" by (rule map_of_SomeD)
      from ev [OF this] stR [of k] Some False x show ?thesis by simp
    qed
  qed
  have frame: "cells h' b = cells h b"
    if b: "b < next_ref h"
      and nb: "\<forall>k v. (k, v) \<in> set (x # rest) \<longrightarrow> as_Param v = None \<longrightarrow> map_of (dict self) k \<noteq> Some b"
    for b
  proof -
    from nb x have "as_Param v0 = None \<longrightarrow> map_of (dict self) k0 \<noteq> Some b" by simp
    with fr [OF b] have 1: "cells h1 b = cells h b" by blast
    have nr: "\<And>k v. (k, v) \<in> set rest \<Longrightarrow> as_Param v = None \<Longrightarrow> map_of (dict self1) k \<noteq> Some b"
    proof -
      fix k v assume kv: "(k, v) \<in> set rest" and pl: "as_Param v = None"
      from kv k0_rest have "k \<noteq> k0" by force
      from nb kv pl have "map_of (dict self) k \<noteq> Some b" by auto
      with oth [OF \<open>k \<noteq> k0\<close>] show "map_of (dict self1) k \<noteq> Some b" by simp
    qed
    have "b < next_ref h1" using b nx by simp
    from frR [OF this] nr have "cells h' b = cells h1 b" by blast
    with 1 show ?thesis by simp
  qed
  have sup: "suppress_exception self' = suppress_exception self" using sup' sup1 by simp
  have nxt: "next_ref h \<le> next_ref h'" using nx nxR by simp
  show ?case
  proof (intro conjI allI impI)
    show "dict_inv G N self' h'" by (rule inv')
    show "suppress_exception self' = suppress_exception self" by (rule sup)
    show "next_ref h \<le> next_ref h'" by (rule nxt)
  next
    fix k show "stored self' h' k =
      (case map_of (x # rest) k of Some v \<Rightarrow> Some (entry_value h v) | None \<Rightarrow> stored self h k)"
      by (rule view)
  next
    fix b assume "b < next_ref h"
      and "\<forall>k v. (k, v) \<in> set (x # rest) \<longrightarrow> as_Param v = None \<longrightarrow> map_of (dict self) k \<noteq> Some b"
    then show "cells h' b = cells h b" by (rule frame)
  qed
qed

lemma resolve_read_strict:
  assumes "Param_resolve E a NOTSET False h = (Inr v, h')"
  shows "h' = h \<and> v = pvalue (cells h a)"
proof -
  have e: "h\<lparr>cells := (cells h)(a := (cells h a)\<lparr>pvalue := pvalue (cells h a)\<rparr>)\<rparr> = h"
    by simp
  show ?thesis
  proof (cases "jsonschema_validate E (pvalue (cells h a)) (schema (cells h a))")
    case Valid
    with assms e show ?thesis
      by (auto simp add: Param_resolve_def Let_def split: if_splits)
  next
    case (Invalid m)
    with assms show ?thesis
      by (auto simp add: Param_resolve_def Let_def split: if_splits)
  next
    case (Fault m)
    with assms show ?thesis
      by (auto simp add: Param_resolve_def Let_def split: if_splits)
  qed
qed

lemma validate_items_strict:
  "validate_items E False kas h = (Inr m, h') \<Longrightarrow>
     h' = h \<and> m = map (\<lambda>(k, a). (k, pvalue (cells h a))) kas"
proof (induction kas arbitrary: m h')
  case Nil
  then show ?case by simp
next
  case (Cons x kas)
  obtain k a where x: "x = (k, a)" by (cases x)
  obtain r h1 where pr: "Param_resolve E a NOTSET False h = (r, h1)"
    by (cases "Param_resolve E a NOTSET False h")
  from Cons.prems x pr obtain v where r: "r = Inr v" by (cases r) simp_all
  from resolve_read_strict [OF pr [unfolded r]] have h1: "h1 = h" and v: "v = pvalue (cells h a)"
    by simp_all
  obtain r2 h2 where vr: "validate_items E False kas h = (r2, h2)"
    by (cases "validate_items E False kas h")
  from Cons.prems x pr r h1 vr obtain m2 where r2: "r2 = Inr m2" by (cases r2) simp_all
  from Cons.IH [OF vr [unfolded r2]] have "h2 = h" and "m2 = map (\<lambda>(k, a). (k, pvalue (cells h a))) kas"
    by simp_all
  with Cons.prems x pr r h1 vr r2 v show ?case by auto
qed

lemma map_of_stored_values:
  "map_of (map (\<lambda>(k, a). (k, pvalue (cells h a))) kas) k
     = map_option (\<lambda>a. pvalue (cells h a)) (map_of kas k)"
  by (induction kas) auto

lemma not_truthy_items: "\<not> truthy t \<Longrightarrow> source_items t = []"
  by (cases t rule: truthy.cases) simp_all

lemma process_params_unfold:
  "process_params E dag_params task_params dagrun_conf suppress h =
     (case setitems E (source_items dag_params) \<lparr>dict = [], suppress_exception = suppress\<rparr> h of
        (Inl e, p1, h1) \<Rightarrow> (Inl e, h1)
      | (Inr u, p1, h1) \<Rightarrow>
          (case setitems E (source_items task_params) p1 h1 of
             (Inl e, p2, h2) \<Rightarrow> (Inl e, h2)
           | (Inr u, p2, h2) \<Rightarrow>
               (case setitems E (run_items E dagrun_conf) p2 h2 of
                  (Inl e, p3, h3) \<Rightarrow> (Inl e, h3)
                | (Inr u, p3, h3) \<Rightarrow> ParamsDict_validate E p3 h3)))"
proof -
  have a: "(case dag_params of None \<Rightarrow> (Inr (), p, h0)
            | Some dp \<Rightarrow> ParamsDict_update E (Some dp) [] p h0)
           = setitems E (source_items dag_params) p h0" for p h0
    by (cases dag_params) (simp_all add: update_eq_process)
  have b: "(if truthy task_params then ParamsDict_update E task_params [] p h1
            else (Inr (), p, h1))
           = setitems E (source_items task_params) p h1" for p h1
    by (cases "truthy task_params") (simp_all add: update_eq_process not_truthy_items)
  have c: "(if conf_getboolean E ''core'' ''dag_run_conf_overrides_params''
              \<and> (case dagrun_conf of None \<Rightarrow> [] | Some c \<Rightarrow> c) \<noteq> []
            then ParamsDict_update E (Some (ArgDict (case dagrun_conf of None \<Rightarrow> [] | Some c \<Rightarrow> c))) [] p h2
            else (Inr (), p, h2))
           = setitems E (run_items E dagrun_conf) p h2" for p h2
    by (cases "(case dagrun_conf of None \<Rightarrow> [] | Some c \<Rightarrow> c) = []")
       (simp_all add: update_eq_process run_items_def)
  show ?thesis
    unfolding process_params_def Let_def ParamsDict_init_def a b c
    by simp
qed

lemma process_params_strict_precedence:
  assumes run: "process_params E dag_params task_params dagrun_conf False h = (Inr m, h')"
    and wf: "well_formed_sources h (source_items dag_params) (source_items task_params)
               (run_items E dagrun_conf)"
  shows "map_of m k =
     (case map_of (run_items E dagrun_conf) k of
        Some v \<Rightarrow> Some v
      | None \<Rightarrow>
          (case map_of (source_items task_params) k of
             Some v \<Rightarrow> Some (entry_value h v)
           | None \<Rightarrow> map_option (entry_value h) (map_of (source_items dag_params) k)))"
proof -
  let ?i1 = "source_items dag_params" and ?i2 = "source_items task_params"
    and ?i3 = "run_items E dagrun_conf"
  let ?p0 = "\<lparr>dict = [], suppress_exception = False\<rparr>"
  define G where "G = {(k, a). \<exists>v. (k, v) \<in> set (?i1 @ ?i2) \<and> as_Param v = Some a}"
  define N where "N = next_ref h"
  from wf have d1: "distinct (map fst ?i1)" and d2: "distinct (map fst ?i2)"
    and d3: "distinct (map fst ?i3)"
    by (simp_all add: well_formed_sources_def)
  from wf have nn: "v \<noteq> NOTSET" if "(k, v) \<in> set (?i1 @ ?i2 @ ?i3)" for k v
    using that unfolding well_formed_sources_def by blast
  from wf have plain3: "as_Param v = None" if "(k, v) \<in> set ?i3" for k v
    using that unfolding well_formed_sources_def by blast
  from wf have alloc: "a < next_ref h" if "(k, v) \<in> set (?i1 @ ?i2)" "as_Param v = Some a" for k v a
    using that unfolding well_formed_sources_def by blast
  from wf have share: "k1 = k2"
    if "(k1, v1) \<in> set (?i1 @ ?i2)" "(k2, v2) \<in> set (?i1 @ ?i2)"
      "as_Param v1 = Some a" "as_Param v2 = Some a" for k1 v1 k2 v2 a
  proof -
    from wf have "\<forall>(k1, v1) \<in> set (?i1 @ ?i2). \<forall>(k2, v2) \<in> set (?i1 @ ?i2).
        as_Param v1 \<noteq> None \<and> as_Param v1 = as_Param v2 \<longrightarrow> k1 = k2"
      by (simp add: well_formed_sources_def)
    with that(1,2) have "as_Param v1 \<noteq> None \<and> as_Param v1 = as_Param v2 \<longrightarrow> k1 = k2"
      by blast
    with that(3,4) show ?thesis by simp
  qed
  have G: "given_ok G N"
    unfolding given_ok_def G_def N_def using alloc share by blast
  have inv0: "dict_inv G N ?p0 h"
    by (simp add: dict_inv_def N_def)
  have mem12: "(k, a) \<in> G" if "(k, v) \<in> set (?i1 @ ?i2)" "as_Param v = Some a" for k v a
    using that unfolding G_def by blast
  obtain r1 p1 h1 where s1: "setitems E ?i1 ?p0 h = (r1, p1, h1)"
    by (cases "setitems E ?i1 ?p0 h")
  from run s1 have r1: "r1 = Inr ()"
    by (cases r1) (simp_all add: process_params_unfold)
  obtain r2 p2 h2 where s2: "setitems E ?i2 p1 h1 = (r2, p2, h2)"
    by (cases "setitems E ?i2 p1 h1")
  from run s1 r1 s2 have r2: "r2 = Inr ()"
    by (cases r2) (simp_all add: process_params_unfold)
  obtain r3 p3 h3 where s3: "setitems E ?i3 p2 h2 = (r3, p3, h3)"
    by (cases "setitems E ?i3 p2 h2")
  from run s1 r1 s2 r2 s3 have r3: "r3 = Inr ()"
    by (cases r3) (simp_all add: process_params_unfold)
  from run s1 r1 s2 r2 s3 r3 have val: "ParamsDict_validate E p3 h3 = (Inr m, h')"
    by (simp add: process_params_unfold)
  have s1': "setitems E ?i1 ?p0 h = (Inr (), p1, h1)" using s1 r1 by simp
  have s2': "setitems E ?i2 p1 h1 = (Inr (), p2, h2)" using s2 r2 by simp
  have s3': "setitems E ?i3 p2 h2 = (Inr (), p3, h3)" using s3 r3 by simp
  have strict0: "\<not> suppress_exception ?p0" by simp
  have mem1: "(k, a) \<in> G" if "(k, v) \<in> set ?i1" "as_Param v = Some a" for k v a
    using mem12 [of k v a] that by simp
  have nn1: "v \<noteq> NOTSET" if "(k, v) \<in> set ?i1" for k v
    using nn [of k v] that by simp
  have ph1: "dict_inv G N p1 h1 \<and> suppress_exception p1 = suppress_exception ?p0
     \<and> (\<forall>k. stored p1 h1 k =
            (case map_of ?i1 k of Some v \<Rightarrow> Some (entry_value h v) | None \<Rightarrow> stored ?p0 h k))
     \<and> (\<forall>b. b < next_ref h \<longrightarrow>
            (\<forall>k v. (k, v) \<in> set ?i1 \<longrightarrow> as_Param v = None \<longrightarrow> map_of (dict ?p0) k \<noteq> Some b)
            \<longrightarrow> cells h1 b = cells h b)
     \<and> next_ref h \<le> next_ref h1"
    using s1' strict0 inv0 G mem1 nn1 d1 by (rule setitems_strict)
  note inv1 = ph1 [THEN conjunct1]
  note sup1 = ph1 [THEN conjunct2, THEN conjunct1]
  note st1 = ph1 [THEN conjunct2, THEN conjunct2, THEN conjunct1, rule_format]
  note fr1 = ph1 [THEN conjunct2, THEN conjunct2, THEN conjunct2, THEN conjunct1, rule_format]
  have same1: "cells h1 b = cells h b" if "b < next_ref h" for b
    using fr1 [OF that] by simp
  have strict1: "\<not> suppress_exception p1" using sup1 by simp
  have mem2: "(k, a) \<in> G" if "(k, v) \<in> set ?i2" "as_Param v = Some a" for k v a
    using mem12 [of k v a] that by simp
  have nn2: "v \<noteq> NOTSET" if "(k, v) \<in> set ?i2" for k v
    using nn [of k v] that by simp
  have ph2: "dict_inv G N p2 h2 \<and> suppress_exception p2 = suppress_exception p1
     \<and> (\<forall>k. stored p2 h2 k =
            (case map_of ?i2 k of Some v \<Rightarrow> Some (entry_value h1 v) | None \<Rightarrow> stored p1 h1 k))
     \<and> (\<forall>b. b < next_ref h1 \<longrightarrow>
            (\<forall>k v. (k, v) \<in> set ?i2 \<longrightarrow> as_Param v = None \<longrightarrow> map_of (dict p1) k \<noteq> Some b)
            \<longrightarrow> cells h2 b = cells h1 b)
     \<and> next_ref h1 \<le> next_ref h2"
    using s2' strict1 inv1 G mem2 nn2 d2 by (rule setitems_strict)
  note inv2 = ph2 [THEN conjunct1]
  note sup2 = ph2 [THEN conjunct2, THEN conjunct1]
  note st2 = ph2 [THEN conjunct2, THEN conjunct2, THEN conjunct1, rule_format]
  have strict2: "\<not> suppress_exception p2" using sup2 strict1 by simp
  have mem3: "(k, a) \<in> G" if "(k, v) \<in> set ?i3" "as_Param v = Some a" for k v a
    using plain3 [OF that(1)] that(2) by simp
  have nn3: "v \<noteq> NOTSET" if "(k, v) \<in> set ?i3" for k v
    using nn [of k v] that by simp
  have ph3: "dict_inv G N p3 h3 \<and> suppress_exception p3 = suppress_exception p2
     \<and> (\<forall>k. stored p3 h3 k =
            (case map_of ?i3 k of Some v \<Rightarrow> Some (entry_value h2 v) | None \<Rightarrow> stored p2 h2 k))
     \<and> (\<forall>b. b < next_ref h2 \<longrightarrow>
            (\<forall>k v. (k, v) \<in> set ?i3 \<longrightarrow> as_Param v = None \<longrightarrow> map_of (dict p2) k \<noteq> Some b)
            \<longrightarrow> cells h3 b = cells h2 b)
     \<and> next_ref h2 \<le> next_ref h3"
    using s3' strict2 inv2 G mem3 nn3 d3 by (rule setitems_strict)
  note sup3 = ph3 [THEN conjunct2, THEN conjunct1]
  note st3 = ph3 [THEN conjunct2, THEN conjunct2, THEN conjunct1, rule_format]
  have strict3: "\<not> suppress_exception p3" using sup3 strict2 by simp
  from val strict3 have "validate_items E False (dict p3) h3 = (Inr m, h')"
    by (simp add: ParamsDict_validate_def)
  from validate_items_strict [OF this]
  have m: "m = map (\<lambda>(k, a). (k, pvalue (cells h3 a))) (dict p3)" by simp
  have res: "map_of m k = stored p3 h3 k"
    by (simp add: m map_of_stored_values stored_def)
  have ev2: "entry_value h1 v = entry_value h v" if "(k, v) \<in> set ?i2" for k v
  proof (cases "as_Param v")
    case None
    then show ?thesis by (simp add: entry_value_def)
  next
    case (Some a)
    from alloc [of k v a] that Some have "a < next_ref h" by simp
    from same1 [OF this] Some show ?thesis by (simp add: entry_value_def)
  qed
  have ev3: "entry_value h2 v = v" if "(k, v) \<in> set ?i3" for k v
    using plain3 [OF that] by (simp add: entry_value_def)
  have v1: "stored p1 h1 k = map_option (entry_value h) (map_of ?i1 k)"
    using st1 [of k] by (simp add: stored_def split: option.splits)
  have v2: "stored p2 h2 k =
      (case map_of ?i2 k of Some v \<Rightarrow> Some (entry_value h v) | None \<Rightarrow> stored p1 h1 k)"
  proof (cases "map_of ?i2 k")
    case None
    with st2 [of k] show ?thesis by simp
  next
    case (Some v)
    then have "(k, v) \<in> set ?i2" by (rule map_of_SomeD)
    from ev2 [OF this] st2 [of k] Some show ?thesis by simp
  qed
  have v3: "stored p3 h3 k =
      (case map_of ?i3 k of Some v \<Rightarrow> Some v | None \<Rightarrow> stored p2 h2 k)"
  proof (cases "map_of ?i3 k")
    case None
    with st3 [of k] show ?thesis by simp
  next
    case (Some v)
    then have "(k, v) \<in> set ?i3" by (rule map_of_SomeD)
    from ev3 [OF this] st3 [of k] Some show ?thesis by simp
  qed
  from res v3 v2 v1 show ?thesis by (simp split: option.splits)
qed

lemma resolve_any_mode:
  assumes "Param_resolve E a v False h = (Inr r, h')"
  shows "Param_resolve E a v suppress h = (Inr r, h')"
proof (cases "v \<noteq> NOTSET \<and> \<not> json_dumps_ok E v")
  case True
  with assms show ?thesis by (simp add: Param_resolve_def check_json_def)
next
  case False
  let ?f = "if v = NOTSET then pvalue (cells h a) else v"
  show ?thesis
  proof (cases "?f = NOTSET")
    case True
    with assms False show ?thesis
      by (auto simp add: Param_resolve_def check_json_def Let_def split: if_splits)
  next
    case nf: False
    show ?thesis
    proof (cases "jsonschema_validate E ?f (schema (cells h a))")
      case Valid
      with assms False nf show ?thesis
        by (auto simp add: Param_resolve_def check_json_def Let_def split: if_splits)
    next
      case (Invalid m)
      with assms False nf show ?thesis
        by (auto simp add: Param_resolve_def check_json_def Let_def split: if_splits)
    next
      case (Fault m)
      with assms False nf show ?thesis
        by (auto simp add: Param_resolve_def check_json_def Let_def split: if_splits)
    qed
  qed
qed

lemma setitem_any_mode:
  assumes "ParamsDict_setitem E k v self h = (Inr (), self', h')"
    and "\<not> suppress_exception self"
  shows "ParamsDict_setitem E k v (self\<lparr>suppress_exception := s\<rparr>) h
           = (Inr (), self'\<lparr>suppress_exception := s\<rparr>, h')"
proof (cases "as_Param v")
  case (Some a)
  with assms show ?thesis by (auto simp add: ParamsDict_setitem_def)
next
  case None
  show ?thesis
  proof (cases "map_of (dict self) k")
    case nk: None
    show ?thesis
    proof (cases "Param_init E v PyNone []")
      case (Inl e)
      with assms None nk show ?thesis by (simp add: ParamsDict_setitem_def)
    next
      case (Inr p)
      with assms None nk show ?thesis
        by (auto simp add: ParamsDict_setitem_def new_Param_def)
    qed
  next
    case (Some a)
    obtain x h1 where px: "Param_resolve E a v False h = (x, h1)"
      by (cases "Param_resolve E a v False h")
    from assms None Some px obtain r where xr: "x = Inr r"
      by (cases x) (simp_all add: ParamsDict_setitem_def)
    from resolve_any_mode [OF px [unfolded xr], of s] assms None Some px xr
    show ?thesis by (auto simp add: ParamsDict_setitem_def)
  qed
qed

lemma setitem_keeps_mode:
  "ParamsDict_setitem E k v self h = (r, self', h') \<Longrightarrow>
     suppress_exception self' = suppress_exception self"
  by (cases "as_Param v"; cases "map_of (dict self) k"; cases "Param_init E v PyNone []")
     (auto simp add: ParamsDict_setitem_def new_Param_def split: prod.splits sum.splits)

lemma setitems_any_mode:
  assumes "setitems E items self h = (Inr (), self', h')"
    and "\<not> suppress_exception self"
  shows "setitems E items (self\<lparr>suppress_exception := s\<rparr>) h
           = (Inr (), self'\<lparr>suppress_exception := s\<rparr>, h')
         \<and> \<not> suppress_exception self'"
  using assms
proof (induction items arbitrary: self h)
  case Nil
  then show ?case by auto
next
  case (Cons x rest)
  obtain k0 v0 where x: "x = (k0, v0)" by (cases x)
  obtain r1 self1 h1 where st: "ParamsDict_setitem E k0 v0 self h = (r1, self1, h1)"
    by (cases "ParamsDict_setitem E k0 v0 self h")
  from Cons.prems(1) x st have r1: "r1 = Inr ()" by (cases r1) simp_all
  from Cons.prems(1) x st r1 have rest: "setitems E rest self1 h1 = (Inr (), self', h')" by simp
  from setitem_keeps_mode [OF st] Cons.prems(2) have m1: "\<not> suppress_exception self1" by simp
  from st r1 have st': "ParamsDict_setitem E k0 v0 self h = (Inr (), self1, h1)" by simp
  from setitem_any_mode [OF st' Cons.prems(2), of s] Cons.IH [OF rest m1] x
  show ?case by simp
qed

lemma validate_items_any_mode:
  "validate_items E False kas h = (Inr m, h') \<Longrightarrow> validate_items E s kas h = (Inr m, h')"
proof (induction kas arbitrary: m h')
  case Nil
  then show ?case by simp
next
  case (Cons x kas)
  obtain k a where x: "x = (k, a)" by (cases x)
  obtain r h1 where pr: "Param_resolve E a NOTSET False h = (r, h1)"
    by (cases "Param_resolve E a NOTSET False h")
  from Cons.prems x pr obtain v where r: "r = Inr v" by (cases r) simp_all
  from resolve_read_strict [OF pr [unfolded r]] have h1: "h1 = h" by simp
  obtain r2 h2 where vr: "validate_items E False kas h = (r2, h2)"
    by (cases "validate_items E False kas h")
  from Cons.prems x pr r h1 vr obtain m2 where r2: "r2 = Inr m2" by (cases r2) simp_all
  from Cons.IH [OF vr [unfolded r2]] resolve_any_mode [OF pr [unfolded r], of s]
    Cons.prems x pr r h1 vr r2
  show ?case by simp
qed

lemma process_params_any_mode:
  assumes run: "process_params E dag_params task_params dagrun_conf False h = (Inr m, h')"
  shows "process_params E dag_params task_params dagrun_conf s h = (Inr m, h')"
proof -
  let ?i1 = "source_items dag_params" and ?i2 = "source_items task_params"
    and ?i3 = "run_items E dagrun_conf"
  let ?p0 = "\<lparr>dict = [], suppress_exception = False\<rparr>"
  obtain r1 p1 h1 where s1: "setitems E ?i1 ?p0 h = (r1, p1, h1)"
    by (cases "setitems E ?i1 ?p0 h")
  from run s1 have r1: "r1 = Inr ()"
    by (cases r1) (simp_all add: process_params_unfold)
  obtain r2 p2 h2 where s2: "setitems E ?i2 p1 h1 = (r2, p2, h2)"
    by (cases "setitems E ?i2 p1 h1")
  from run s1 r1 s2 have r2: "r2 = Inr ()"
    by (cases r2) (simp_all add: process_params_unfold)
  obtain r3 p3 h3 where s3: "setitems E ?i3 p2 h2 = (r3, p3, h3)"
    by (cases "setitems E ?i3 p2 h2")
  from run s1 r1 s2 r2 s3 have r3: "r3 = Inr ()"
    by (cases r3) (simp_all add: process_params_unfold)
  from run s1 r1 s2 r2 s3 r3 have val: "ParamsDict_validate E p3 h3 = (Inr m, h')"
    by (simp add: process_params_unfold)
  have s1': "setitems E ?i1 ?p0 h = (Inr (), p1, h1)" using s1 r1 by simp
  have s2': "setitems E ?i2 p1 h1 = (Inr (), p2, h2)" using s2 r2 by simp
  have s3': "setitems E ?i3 p2 h2 = (Inr (), p3, h3)" using s3 r3 by simp
  have a1: "setitems E ?i1 \<lparr>dict = [], suppress_exception = s\<rparr> h
              = (Inr (), p1\<lparr>suppress_exception := s\<rparr>, h1)" and m1: "\<not> suppress_exception p1"
    using setitems_any_mode [OF s1', of s] by simp_all
  have a2: "setitems E ?i2 (p1\<lparr>suppress_exception := s\<rparr>) h1
              = (Inr (), p2\<lparr>suppress_exception := s\<rparr>, h2)" and m2: "\<not> suppress_exception p2"
    using setitems_any_mode [OF s2' m1, of s] by simp_all
  have a3: "setitems E ?i3 (p2\<lparr>suppress_exception := s\<rparr>) h2
              = (Inr (), p3\<lparr>suppress_exception := s\<rparr>, h3)" and m3: "\<not> suppress_exception p3"
    using setitems_any_mode [OF s3' m2, of s] by simp_all
  from val m3 have "validate_items E False (dict p3) h3 = (Inr m, h')"
    by (simp add: ParamsDict_validate_def)
  from validate_items_any_mode [OF this, of s]
  have "ParamsDict_validate E (p3\<lparr>suppress_exception := s\<rparr>) h3 = (Inr m, h')"
    by (simp add: ParamsDict_validate_def)
  with a1 a2 a3 show ?thesis by (simp add: process_params_unfold)
qed

lemma process_params_gate:
  "\<not> conf_getboolean E ''core'' ''dag_run_conf_overrides_params'' \<or> dagrun_conf = Some [] \<Longrightarrow>
   process_params E dag_params task_params dagrun_conf suppress h
     = process_params E dag_params task_params None suppress h"
proof -
  assume "\<not> conf_getboolean E ''core'' ''dag_run_conf_overrides_params'' \<or> dagrun_conf = Some []"
  then have "run_items E dagrun_conf = run_items E None"
    by (auto simp add: run_items_def)
  then show ?thesis by (simp only: process_params_unfold)
qed

lemmas eval_defs = process_params_def ParamsDict_init_def ParamsDict_update_def
  MutableMapping_update_def ParamsDict_setitem_def ParamsDict_validate_def Param_resolve_def
  Param_init_def check_json_def new_Param_def sample_env_def heap_of_def int_schema_def
  empty_heap_def Let_def




lemma setitem_step:
  assumes run: "ParamsDict_setitem E k v self h = (Inr (), self', h')"
    and inv: "dict_inv G N self h" and G: "given_ok G N"
    and mem: "\<And>a. as_Param v = Some a \<Longrightarrow> (k, a) \<in> G"
    and nn: "v \<noteq> NOTSET"
  shows "dict_inv G N self' h' \<and> suppress_exception self' = suppress_exception self
     \<and> entry_state self' h' k = assigned E h (entry_state self h k) v
     \<and> (\<forall>k'. k' \<noteq> k \<longrightarrow> map_of (dict self') k' = map_of (dict self) k')
     \<and> (\<forall>b. b < next_ref h \<longrightarrow> (as_Param v = None \<longrightarrow> map_of (dict self) k \<noteq> Some b)
            \<longrightarrow> cells h' b = cells h b)
     \<and> next_ref h \<le> next_ref h'"
proof -
  consider (adopt) a where "as_Param v = Some a"
    | (existing) a where "as_Param v = None" "map_of (dict self) k = Some a"
    | (fresh) "as_Param v = None" "map_of (dict self) k = None"
    by (cases "as_Param v"; cases "map_of (dict self) k") auto
  then show ?thesis
  proof cases
    case adopt
    from run adopt have s: "self' = self\<lparr>dict := AList.update k a (dict self)\<rparr>" and h: "h' = h"
      by (simp_all add: ParamsDict_setitem_def)
    from mem adopt have kg: "(k, a) \<in> G" by simp
    with G have aN: "a < N" by (auto simp add: given_ok_def)
    have other: "k2 = k" if "map_of (dict self) k2 = Some a" for k2
    proof -
      from dict_inv_origin [OF inv that] aN have "(k2, a) \<in> G" by auto
      with kg G show ?thesis by (blast dest: given_ok_inj)
    qed
    have m: "map_of (dict self') x = (if x = k then Some a else map_of (dict self) x)" for x
      by (simp add: s update_conv')
    have "dict_inv G N self' h'"
    proof (rule dict_invI)
      show "N \<le> next_ref h'" using inv by (simp add: h dict_inv_next)
    next
      fix k' a' assume b: "map_of (dict self') k' = Some a'"
      show "a' < next_ref h'"
      proof (cases "k' = k")
        case True
        with b m have "a' = a" by simp
        with aN dict_inv_next [OF inv] show ?thesis by (simp add: h)
      next
        case False
        with b m have "map_of (dict self) k' = Some a'" by simp
        from dict_inv_alloc [OF inv this] show ?thesis by (simp add: h)
      qed
    next
      fix k' a' assume b: "map_of (dict self') k' = Some a'"
      show "(k', a') \<in> G \<or> N \<le> a'"
      proof (cases "k' = k")
        case True
        with b m have "a' = a" by simp
        with kg True show ?thesis by simp
      next
        case False
        with b m have "map_of (dict self) k' = Some a'" by simp
        from dict_inv_origin [OF inv this] show ?thesis .
      qed
    next
      fix k1 k2 a' assume b1: "map_of (dict self') k1 = Some a'" and b2: "map_of (dict self') k2 = Some a'"
      have k_case: "y = k" if "x = k" "map_of (dict self') x = Some a'" "map_of (dict self') y = Some a'" for x y
      proof (rule ccontr)
        assume ny: "y \<noteq> k"
        from that(1,2) m have "a' = a" by simp
        with that(3) ny m have "map_of (dict self) y = Some a" by simp
        from other [OF this] ny show False by simp
      qed
      show "k1 = k2"
      proof (cases "k1 = k \<or> k2 = k")
        case True
        then show ?thesis using k_case [of k1 k2] k_case [of k2 k1] b1 b2 by blast
      next
        case False
        with b1 b2 m have "map_of (dict self) k1 = Some a'" "map_of (dict self) k2 = Some a'"
          by simp_all
        then show ?thesis by (rule dict_inv_inj [OF inv])
      qed
    qed
    then show ?thesis using adopt
      by (simp add: s h entry_state_def assigned_def update_conv')
  next
    case existing
    let ?mode = "suppress_exception self"
    obtain x h1 where px: "Param_resolve E a v ?mode h = (x, h1)"
      by (cases "Param_resolve E a v ?mode h")
    from run existing px have
      sx: "(case x of Inl e \<Rightarrow> (Inl (annotate k e), self, h1)
                    | Inr u \<Rightarrow> (Inr (), self\<lparr>dict := AList.update k a (dict self)\<rparr>, h1))
           = (Inr (), self', h')"
      by (simp add: ParamsDict_setitem_def)
    then obtain r where xr: "x = Inr r" by (cases x) simp_all
    from sx xr existing have s: "self' = self" and hh: "h1 = h'"
      by (simp_all add: update_triv)
    from px xr hh have res: "Param_resolve E a v ?mode h = (Inr r, h')" by simp
    have h: "(jsonschema_validate E v (schema (cells h a)) = Valid
              \<and> h' = h\<lparr>cells := (cells h)(a := (cells h a)\<lparr>pvalue := v\<rparr>)\<rparr>)
           \<or> (jsonschema_validate E v (schema (cells h a)) \<noteq> Valid \<and> h' = h)"
    proof (cases "jsonschema_validate E v (schema (cells h a))")
      case Valid
      with res nn show ?thesis
        by (auto simp add: Param_resolve_def check_json_def Let_def split: if_splits)
    next
      case (Invalid m)
      with res nn show ?thesis
        by (auto simp add: Param_resolve_def check_json_def Let_def split: if_splits)
    next
      case (Fault m)
      with res nn show ?thesis
        by (auto simp add: Param_resolve_def check_json_def Let_def split: if_splits)
    qed
    then show ?thesis
    proof
      assume A: "jsonschema_validate E v (schema (cells h a)) = Valid
              \<and> h' = h\<lparr>cells := (cells h)(a := (cells h a)\<lparr>pvalue := v\<rparr>)\<rparr>"
      have "dict_inv G N self' h'"
        using inv A by (simp add: dict_inv_def s)
      then show ?thesis using existing A
        by (auto simp add: s entry_state_def assigned_def)
    next
      assume A: "jsonschema_validate E v (schema (cells h a)) \<noteq> Valid \<and> h' = h"
      have "dict_inv G N self' h'"
        using inv A by (simp add: dict_inv_def s)
      then show ?thesis using existing A
        by (auto simp add: s entry_state_def assigned_def)
    qed
  next
    case fresh
    obtain p where p: "Param_init E v PyNone [] = Inr p"
      using run fresh
      by (cases "Param_init E v PyNone []") (simp_all add: ParamsDict_setitem_def)
    from run fresh p have s: "self' = self\<lparr>dict := AList.update k (next_ref h) (dict self)\<rparr>"
      and h: "h' = h\<lparr>cells := (cells h)(next_ref h := p), next_ref := Suc (next_ref h)\<rparr>"
      by (simp_all add: ParamsDict_setitem_def new_Param_def)
    from Param_init_no_schema [OF p] have pv: "pvalue p = v" and ps: "schema p = PyDict []"
      by simp_all
    have m: "map_of (dict self') x = (if x = k then Some (next_ref h) else map_of (dict self) x)" for x
      by (simp add: s update_conv')
    have "dict_inv G N self' h'"
    proof (rule dict_invI)
      show "N \<le> next_ref h'" using dict_inv_next [OF inv] by (simp add: h)
    next
      fix k' a' assume b: "map_of (dict self') k' = Some a'"
      show "a' < next_ref h'"
      proof (cases "k' = k")
        case True
        with b m have "a' = next_ref h" by simp
        then show ?thesis by (simp add: h)
      next
        case False
        with b m have "map_of (dict self) k' = Some a'" by simp
        from dict_inv_alloc [OF inv this] show ?thesis by (simp add: h)
      qed
    next
      fix k' a' assume b: "map_of (dict self') k' = Some a'"
      show "(k', a') \<in> G \<or> N \<le> a'"
      proof (cases "k' = k")
        case True
        with b m have "a' = next_ref h" by simp
        with dict_inv_next [OF inv] show ?thesis by simp
      next
        case False
        with b m have "map_of (dict self) k' = Some a'" by simp
        from dict_inv_origin [OF inv this] show ?thesis .
      qed
    next
      fix k1 k2 a' assume b1: "map_of (dict self') k1 = Some a'" and b2: "map_of (dict self') k2 = Some a'"
      have k_case: "y = k" if "x = k" "map_of (dict self') x = Some a'" "map_of (dict self') y = Some a'" for x y
      proof (rule ccontr)
        assume ny: "y \<noteq> k"
        from that(1,2) m have "a' = next_ref h" by simp
        with that(3) ny m have "map_of (dict self) y = Some (next_ref h)" by simp
        from dict_inv_alloc [OF inv this] show False by simp
      qed
      show "k1 = k2"
      proof (cases "k1 = k \<or> k2 = k")
        case True
        then show ?thesis using k_case [of k1 k2] k_case [of k2 k1] b1 b2 by blast
      next
        case False
        with b1 b2 m have "map_of (dict self) k1 = Some a'" "map_of (dict self) k2 = Some a'"
          by simp_all
        then show ?thesis by (rule dict_inv_inj [OF inv])
      qed
    qed
    then show ?thesis using fresh pv ps
      by (auto simp add: s h entry_state_def assigned_def update_conv')
  qed
qed

lemma setitems_entries:
  assumes "setitems E items self h = (Inr (), self', h')"
    and "dict_inv G N self h" and "given_ok G N"
    and "\<And>k v a. (k, v) \<in> set items \<Longrightarrow> as_Param v = Some a \<Longrightarrow> (k, a) \<in> G"
    and "\<And>k v. (k, v) \<in> set items \<Longrightarrow> v \<noteq> NOTSET"
    and "distinct (map fst items)"
  shows "dict_inv G N self' h' \<and> suppress_exception self' = suppress_exception self
     \<and> (\<forall>k. entry_state self' h' k =
            (case map_of items k of Some v \<Rightarrow> assigned E h (entry_state self h k) v
             | None \<Rightarrow> entry_state self h k))
     \<and> (\<forall>b. b < next_ref h \<longrightarrow>
            (\<forall>k v. (k, v) \<in> set items \<longrightarrow> as_Param v = None \<longrightarrow> map_of (dict self) k \<noteq> Some b)
            \<longrightarrow> cells h' b = cells h b)
     \<and> next_ref h \<le> next_ref h'"
  using assms
proof (induction items arbitrary: self h)
  case Nil
  then show ?case by simp
next
  case (Cons x rest)
  obtain k0 v0 where x: "x = (k0, v0)" by (cases x)
  obtain r1 self1 h1 where st: "ParamsDict_setitem E k0 v0 self h = (r1, self1, h1)"
    by (cases "ParamsDict_setitem E k0 v0 self h")
  from Cons.prems(1) x st have r1: "r1 = Inr ()"
    by (cases r1) simp_all
  from Cons.prems(1) x st r1 have rest: "setitems E rest self1 h1 = (Inr (), self', h')"
    by simp
  have G: "given_ok G N" by fact
  have inv: "dict_inv G N self h" by fact
  have mem0: "\<And>a. as_Param v0 = Some a \<Longrightarrow> (k0, a) \<in> G"
    using Cons.prems(4) [of k0 v0] x by simp
  have nn0: "v0 \<noteq> NOTSET" using Cons.prems(5) [of k0 v0] x by simp
  have k0_rest: "k0 \<notin> fst ` set rest" and dr: "distinct (map fst rest)"
    using Cons.prems(6) x by simp_all
  have st': "ParamsDict_setitem E k0 v0 self h = (Inr (), self1, h1)" using st r1 by simp
  have step: "dict_inv G N self1 h1 \<and> suppress_exception self1 = suppress_exception self
     \<and> entry_state self1 h1 k0 = assigned E h (entry_state self h k0) v0
     \<and> (\<forall>k'. k' \<noteq> k0 \<longrightarrow> map_of (dict self1) k' = map_of (dict self) k')
     \<and> (\<forall>b. b < next_ref h \<longrightarrow> (as_Param v0 = None \<longrightarrow> map_of (dict self) k0 \<noteq> Some b)
            \<longrightarrow> cells h1 b = cells h b)
     \<and> next_ref h \<le> next_ref h1"
    using st' inv G mem0 nn0 by (rule setitem_step)
  note inv1 = step [THEN conjunct1]
  note sup1 = step [THEN conjunct2, THEN conjunct1]
  note st0 = step [THEN conjunct2, THEN conjunct2, THEN conjunct1]
  note oth = step [THEN conjunct2, THEN conjunct2, THEN conjunct2, THEN conjunct1, rule_format]
  note fr = step [THEN conjunct2, THEN conjunct2, THEN conjunct2, THEN conjunct2, THEN conjunct1,
      rule_format]
  note nx = step [THEN conjunct2, THEN conjunct2, THEN conjunct2, THEN conjunct2, THEN conjunct2]
  have memr: "(k, a) \<in> G" if "(k, v) \<in> set rest" "as_Param v = Some a" for k v a
    using Cons.prems(4) [of k v a] that by simp
  have nnr: "v \<noteq> NOTSET" if "(k, v) \<in> set rest" for k v
    using Cons.prems(5) [of k v] that by simp
  have IH: "dict_inv G N self' h' \<and> suppress_exception self' = suppress_exception self1
     \<and> (\<forall>k. entry_state self' h' k =
            (case map_of rest k of Some v \<Rightarrow> assigned E h1 (entry_state self1 h1 k) v
             | None \<Rightarrow> entry_state self1 h1 k))
     \<and> (\<forall>b. b < next_ref h1 \<longrightarrow>
            (\<forall>k v. (k, v) \<in> set rest \<longrightarrow> as_Param v = None \<longrightarrow> map_of (dict self1) k \<noteq> Some b)
            \<longrightarrow> cells h' b = cells h1 b)
     \<and> next_ref h1 \<le> next_ref h'"
    using rest inv1 G memr nnr dr by (rule Cons.IH)
  note inv' = IH [THEN conjunct1]
  note mode' = IH [THEN conjunct2, THEN conjunct1]
  note stR = IH [THEN conjunct2, THEN conjunct2, THEN conjunct1, rule_format]
  note frR = IH [THEN conjunct2, THEN conjunct2, THEN conjunct2, THEN conjunct1, rule_format]
  note nxR = IH [THEN conjunct2, THEN conjunct2, THEN conjunct2, THEN conjunct2]
  have not_k0: "map_of (dict self) k0 \<noteq> Some a" if "(k, a) \<in> G" "k \<noteq> k0" for k a
  proof
    assume m: "map_of (dict self) k0 = Some a"
    from given_ok_lt [OF G that(1)] dict_inv_origin [OF inv m] have "(k0, a) \<in> G" by auto
    from given_ok_inj [OF G this that(1)] that(2) show False by simp
  qed
  have ev: "assigned E h1 e v = assigned E h e v" if "(k, v) \<in> set rest" for k v e
  proof (cases "as_Param v")
    case None
    then show ?thesis by (simp add: assigned_def)
  next
    case (Some a)
    from memr [OF that Some] have kg: "(k, a) \<in> G" .
    from that k0_rest have ne: "k \<noteq> k0" by force
    from given_ok_lt [OF G kg] dict_inv_next [OF inv] have "a < next_ref h" by simp
    from fr [OF this] not_k0 [OF kg ne] have "cells h1 a = cells h a" by blast
    with Some show ?thesis by (simp add: assigned_def)
  qed
  have keep: "entry_state self1 h1 k = entry_state self h k" if "k \<noteq> k0" for k
  proof (cases "map_of (dict self) k")
    case None
    with oth [OF that] show ?thesis by (simp add: entry_state_def)
  next
    case (Some c)
    have "map_of (dict self) k0 \<noteq> Some c"
      using dict_inv_inj [OF inv Some, of k0] that by auto
    with fr [OF dict_inv_alloc [OF inv Some]] have "cells h1 c = cells h c" by blast
    with oth [OF that] Some show ?thesis by (simp add: entry_state_def)
  qed
  have view: "entry_state self' h' k =
      (case map_of (x # rest) k of Some v \<Rightarrow> assigned E h (entry_state self h k) v
       | None \<Rightarrow> entry_state self h k)"
    for k
  proof (cases "k = k0")
    case True
    from k0_rest have "map_of rest k0 = None" by (simp add: map_of_eq_None_iff)
    with stR [of k0] st0 True x show ?thesis by simp
  next
    case False
    show ?thesis
    proof (cases "map_of rest k")
      case None
      with stR [of k] keep [OF False] False x show ?thesis by simp
    next
      case (Some v)
      then have "(k, v) \<in> set rest" by (rule map_of_SomeD)
      from ev [OF this] stR [of k] keep [OF False] Some False x show ?thesis by simp
    qed
  qed
  have frame: "cells h' b = cells h b"
    if b: "b < next_ref h"
      and nb: "\<forall>k v. (k, v) \<in> set (x # rest) \<longrightarrow> as_Param v = None \<longrightarrow> map_of (dict self) k \<noteq> Some b"
    for b
  proof -
    from nb x have "as_Param v0 = None \<longrightarrow> map_of (dict self) k0 \<noteq> Some b" by simp
    with fr [OF b] have 1: "cells h1 b = cells h b" by blast
    have nr: "\<And>k v. (k, v) \<in> set rest \<Longrightarrow> as_Param v = None \<Longrightarrow> map_of (dict self1) k \<noteq> Some b"
    proof -
      fix k v assume kv: "(k, v) \<in> set rest" and pl: "as_Param v = None"
      from kv k0_rest have "k \<noteq> k0" by force
      from nb kv pl have "map_of (dict self) k \<noteq> Some b" by auto
      with oth [OF \<open>k \<noteq> k0\<close>] show "map_of (dict self1) k \<noteq> Some b" by simp
    qed
    have "b < next_ref h1" using b nx by simp
    from frR [OF this] nr have "cells h' b = cells h1 b" by blast
    with 1 show ?thesis by simp
  qed
  have mode: "suppress_exception self' = suppress_exception self" using mode' sup1 by simp
  have nxt: "next_ref h \<le> next_ref h'" using nx nxR by simp
  show ?case
  proof (intro conjI allI impI)
    show "dict_inv G N self' h'" by (rule inv')
    show "suppress_exception self' = suppress_exception self" by (rule mode)
    show "next_ref h \<le> next_ref h'" by (rule nxt)
  next
    fix k show "entry_state self' h' k =
      (case map_of (x # rest) k of Some v \<Rightarrow> assigned E h (entry_state self h k) v
       | None \<Rightarrow> entry_state self h k)"
      by (rule view)
  next
    fix b assume "b < next_ref h"
      and "\<forall>k v. (k, v) \<in> set (x # rest) \<longrightarrow> as_Param v = None \<longrightarrow> map_of (dict self) k \<noteq> Some b"
    then show "cells h' b = cells h b" by (rule frame)
  qed
qed

lemma resolve_read:
  assumes "Param_resolve E a NOTSET mode h = (Inr v, h')"
  shows "h' = h \<and> v = (if pvalue (cells h a) \<noteq> NOTSET
            \<and> jsonschema_validate E (pvalue (cells h a)) (schema (cells h a)) = Valid
          then pvalue (cells h a) else PyNone)"
proof -
  have e: "h\<lparr>cells := (cells h)(a := (cells h a)\<lparr>pvalue := pvalue (cells h a)\<rparr>)\<rparr> = h"
    by simp
  show ?thesis
  proof (cases "pvalue (cells h a) = NOTSET")
    case True
    with assms show ?thesis
      by (auto simp add: Param_resolve_def Let_def split: if_splits)
  next
    case nf: False
    show ?thesis
    proof (cases "jsonschema_validate E (pvalue (cells h a)) (schema (cells h a))")
      case Valid
      with assms e nf show ?thesis
        by (auto simp add: Param_resolve_def Let_def split: if_splits)
    next
      case (Invalid m)
      with assms nf show ?thesis
        by (auto simp add: Param_resolve_def Let_def split: if_splits)
    next
      case (Fault m)
      with assms nf show ?thesis
        by (auto simp add: Param_resolve_def Let_def split: if_splits)
    qed
  qed
qed

lemma validate_items_read:
  "validate_items E mode kas h = (Inr m, h') \<Longrightarrow>
     h' = h \<and> map_of m k = read_entry E
       (map_option (\<lambda>a. (schema (cells h a), pvalue (cells h a))) (map_of kas k))"
proof (induction kas arbitrary: m h')
  case Nil
  then show ?case by (simp add: read_entry_def)
next
  case (Cons x kas)
  obtain k0 a where x: "x = (k0, a)" by (cases x)
  obtain r h1 where pr: "Param_resolve E a NOTSET mode h = (r, h1)"
    by (cases "Param_resolve E a NOTSET mode h")
  from Cons.prems x pr obtain v where r: "r = Inr v" by (cases r) simp_all
  from resolve_read [OF pr [unfolded r]] have h1: "h1 = h"
    and v: "v = (if pvalue (cells h a) \<noteq> NOTSET
            \<and> jsonschema_validate E (pvalue (cells h a)) (schema (cells h a)) = Valid
          then pvalue (cells h a) else PyNone)"
    by simp_all
  obtain r2 h2 where vr: "validate_items E mode kas h = (r2, h2)"
    by (cases "validate_items E mode kas h")
  from Cons.prems x pr r h1 vr obtain m2 where r2: "r2 = Inr m2" by (cases r2) simp_all
  from Cons.IH [OF vr [unfolded r2]] have h2: "h2 = h"
    and m2: "map_of m2 k = read_entry E
       (map_option (\<lambda>a. (schema (cells h a), pvalue (cells h a))) (map_of kas k))"
    by simp_all
  from Cons.prems x pr r h1 vr r2 h2 have m: "m = (k0, v) # m2" and hh: "h' = h" by auto
  show ?case
  proof (cases "k = k0")
    case True
    with m hh v x show ?thesis by (simp add: read_entry_def)
  next
    case False
    with m hh m2 x show ?thesis by simp
  qed
qed

lemma process_params_layered:
  assumes run: "process_params E dag_params task_params dagrun_conf mode h = (Inr m, h')"
    and wf: "well_formed_sources h (source_items dag_params) (source_items task_params)
               (run_items E dagrun_conf)"
  shows "map_of m k = read_entry E
    (layered E h (source_items dag_params) (source_items task_params) (run_items E dagrun_conf) k)"
proof -
  let ?i1 = "source_items dag_params" and ?i2 = "source_items task_params"
    and ?i3 = "run_items E dagrun_conf"
  let ?p0 = "\<lparr>dict = [], suppress_exception = mode\<rparr>"
  define G where "G = {(k, a). \<exists>v. (k, v) \<in> set (?i1 @ ?i2) \<and> as_Param v = Some a}"
  define N where "N = next_ref h"
  from wf have d1: "distinct (map fst ?i1)" and d2: "distinct (map fst ?i2)"
    and d3: "distinct (map fst ?i3)"
    by (simp_all add: well_formed_sources_def)
  from wf have nn: "v \<noteq> NOTSET" if "(k, v) \<in> set (?i1 @ ?i2 @ ?i3)" for k v
    using that unfolding well_formed_sources_def by blast
  from wf have plain3: "as_Param v = None" if "(k, v) \<in> set ?i3" for k v
    using that unfolding well_formed_sources_def by blast
  from wf have alloc: "a < next_ref h" if "(k, v) \<in> set (?i1 @ ?i2)" "as_Param v = Some a" for k v a
    using that unfolding well_formed_sources_def by blast
  from wf have share: "k1 = k2"
    if "(k1, v1) \<in> set (?i1 @ ?i2)" "(k2, v2) \<in> set (?i1 @ ?i2)"
      "as_Param v1 = Some a" "as_Param v2 = Some a" for k1 v1 k2 v2 a
  proof -
    from wf have "\<forall>(k1, v1) \<in> set (?i1 @ ?i2). \<forall>(k2, v2) \<in> set (?i1 @ ?i2).
        as_Param v1 \<noteq> None \<and> as_Param v1 = as_Param v2 \<longrightarrow> k1 = k2"
      by (simp add: well_formed_sources_def)
    with that(1,2) have "as_Param v1 \<noteq> None \<and> as_Param v1 = as_Param v2 \<longrightarrow> k1 = k2"
      by blast
    with that(3,4) show ?thesis by simp
  qed
  have G: "given_ok G N"
    unfolding given_ok_def G_def N_def using alloc share by blast
  have inv0: "dict_inv G N ?p0 h"
    by (simp add: dict_inv_def N_def)
  have mem12: "(k, a) \<in> G" if "(k, v) \<in> set (?i1 @ ?i2)" "as_Param v = Some a" for k v a
    using that unfolding G_def by blast
  obtain r1 p1 h1 where s1: "setitems E ?i1 ?p0 h = (r1, p1, h1)"
    by (cases "setitems E ?i1 ?p0 h")
  from run s1 have r1: "r1 = Inr ()"
    by (cases r1) (simp_all add: process_params_unfold)
  obtain r2 p2 h2 where s2: "setitems E ?i2 p1 h1 = (r2, p2, h2)"
    by (cases "setitems E ?i2 p1 h1")
  from run s1 r1 s2 have r2: "r2 = Inr ()"
    by (cases r2) (simp_all add: process_params_unfold)
  obtain r3 p3 h3 where s3: "setitems E ?i3 p2 h2 = (r3, p3, h3)"
    by (cases "setitems E ?i3 p2 h2")
  from run s1 r1 s2 r2 s3 have r3: "r3 = Inr ()"
    by (cases r3) (simp_all add: process_params_unfold)
  from run s1 r1 s2 r2 s3 r3 have val: "ParamsDict_validate E p3 h3 = (Inr m, h')"
    by (simp add: process_params_unfold)
  have s1': "setitems E ?i1 ?p0 h = (Inr (), p1, h1)" using s1 r1 by simp
  have s2': "setitems E ?i2 p1 h1 = (Inr (), p2, h2)" using s2 r2 by simp
  have s3': "setitems E ?i3 p2 h2 = (Inr (), p3, h3)" using s3 r3 by simp
  have mem1: "(k, a) \<in> G" if "(k, v) \<in> set ?i1" "as_Param v = Some a" for k v a
    using mem12 [of k v a] that by simp
  have nn1: "v \<noteq> NOTSET" if "(k, v) \<in> set ?i1" for k v
    using nn [of k v] that by simp
  have ph1: "dict_inv G N p1 h1 \<and> suppress_exception p1 = suppress_exception ?p0
     \<and> (\<forall>k. entry_state p1 h1 k =
            (case map_of ?i1 k of Some v \<Rightarrow> assigned E h (entry_state ?p0 h k) v
             | None \<Rightarrow> entry_state ?p0 h k))
     \<and> (\<forall>b. b < next_ref h \<longrightarrow>
            (\<forall>k v. (k, v) \<in> set ?i1 \<longrightarrow> as_Param v = None \<longrightarrow> map_of (dict ?p0) k \<noteq> Some b)
            \<longrightarrow> cells h1 b = cells h b)
     \<and> next_ref h \<le> next_ref h1"
    using s1' inv0 G mem1 nn1 d1 by (rule setitems_entries)
  note inv1 = ph1 [THEN conjunct1]
  note st1 = ph1 [THEN conjunct2, THEN conjunct2, THEN conjunct1, rule_format]
  note fr1 = ph1 [THEN conjunct2, THEN conjunct2, THEN conjunct2, THEN conjunct1, rule_format]
  have same1: "cells h1 b = cells h b" if "b < next_ref h" for b
    using fr1 [OF that] by simp
  have mem2: "(k, a) \<in> G" if "(k, v) \<in> set ?i2" "as_Param v = Some a" for k v a
    using mem12 [of k v a] that by simp
  have nn2: "v \<noteq> NOTSET" if "(k, v) \<in> set ?i2" for k v
    using nn [of k v] that by simp
  have ph2: "dict_inv G N p2 h2 \<and> suppress_exception p2 = suppress_exception p1
     \<and> (\<forall>k. entry_state p2 h2 k =
            (case map_of ?i2 k of Some v \<Rightarrow> assigned E h1 (entry_state p1 h1 k) v
             | None \<Rightarrow> entry_state p1 h1 k))
     \<and> (\<forall>b. b < next_ref h1 \<longrightarrow>
            (\<forall>k v. (k, v) \<in> set ?i2 \<longrightarrow> as_Param v = None \<longrightarrow> map_of (dict p1) k \<noteq> Some b)
            \<longrightarrow> cells h2 b = cells h1 b)
     \<and> next_ref h1 \<le> next_ref h2"
    using s2' inv1 G mem2 nn2 d2 by (rule setitems_entries)
  note inv2 = ph2 [THEN conjunct1]
  note st2 = ph2 [THEN conjunct2, THEN conjunct2, THEN conjunct1, rule_format]
  have mem3: "(k, a) \<in> G" if "(k, v) \<in> set ?i3" "as_Param v = Some a" for k v a
    using plain3 [OF that(1)] that(2) by simp
  have nn3: "v \<noteq> NOTSET" if "(k, v) \<in> set ?i3" for k v
    using nn [of k v] that by simp
  have ph3: "dict_inv G N p3 h3 \<and> suppress_exception p3 = suppress_exception p2
     \<and> (\<forall>k. entry_state p3 h3 k =
            (case map_of ?i3 k of Some v \<Rightarrow> assigned E h2 (entry_state p2 h2 k) v
             | None \<Rightarrow> entry_state p2 h2 k))
     \<and> (\<forall>b. b < next_ref h2 \<longrightarrow>
            (\<forall>k v. (k, v) \<in> set ?i3 \<longrightarrow> as_Param v = None \<longrightarrow> map_of (dict p2) k \<noteq> Some b)
            \<longrightarrow> cells h3 b = cells h2 b)
     \<and> next_ref h2 \<le> next_ref h3"
    using s3' inv2 G mem3 nn3 d3 by (rule setitems_entries)
  note st3 = ph3 [THEN conjunct2, THEN conjunct2, THEN conjunct1, rule_format]
  from val have "validate_items E (suppress_exception p3) (dict p3) h3 = (Inr m, h')"
    by (simp add: ParamsDict_validate_def)
  from validate_items_read [OF this, of k]
  have res: "map_of m k = read_entry E (entry_state p3 h3 k)"
    by (simp add: entry_state_def)
  have ev2: "assigned E h1 e v = assigned E h e v" if "(k, v) \<in> set ?i2" for k v e
  proof (cases "as_Param v")
    case None
    then show ?thesis by (simp add: assigned_def)
  next
    case (Some a)
    from alloc [of k v a] that Some have "a < next_ref h" by simp
    from same1 [OF this] Some show ?thesis by (simp add: assigned_def)
  qed
  have ev3: "assigned E h2 e v = assigned E h e v" if "(k, v) \<in> set ?i3" for k v e
    using plain3 [OF that] by (simp add: assigned_def)
  have v1: "entry_state p1 h1 k = layer E h None (map_of ?i1 k)"
    using st1 [of k] by (simp add: entry_state_def layer_def split: option.splits)
  have v2: "entry_state p2 h2 k = layer E h (entry_state p1 h1 k) (map_of ?i2 k)"
  proof (cases "map_of ?i2 k")
    case None
    with st2 [of k] show ?thesis by (simp add: layer_def)
  next
    case (Some v)
    then have "(k, v) \<in> set ?i2" by (rule map_of_SomeD)
    from ev2 [OF this] st2 [of k] Some show ?thesis by (simp add: layer_def)
  qed
  have v3: "entry_state p3 h3 k = layer E h (entry_state p2 h2 k) (map_of ?i3 k)"
  proof (cases "map_of ?i3 k")
    case None
    with st3 [of k] show ?thesis by (simp add: layer_def)
  next
    case (Some v)
    then have "(k, v) \<in> set ?i3" by (rule map_of_SomeD)
    from ev3 [OF this] st3 [of k] Some show ?thesis by (simp add: layer_def)
  qed
  from res v3 v2 v1 show ?thesis by (simp add: layered_def)
qed

lemma accepted_read:
  assumes "accepted E h entry v"
  shows "read_entry E (assigned E h entry v) = Some (entry_value h v)"
proof (cases "as_Param v")
  case (Some a)
  with assms show ?thesis
    by (simp add: accepted_def assigned_def read_entry_def entry_value_def)
next
  case None
  show ?thesis
  proof (cases entry)
    case en: None
    with assms None show ?thesis
      by (simp add: accepted_def assigned_def read_entry_def entry_value_def)
  next
    case (Some sx)
    obtain s x where sx: "sx = (s, x)" by (cases sx)
    with assms None Some show ?thesis
      by (simp add: accepted_def assigned_def read_entry_def entry_value_def)
  qed
qed

lemma rejected_keeps:
  "as_Param v = None \<Longrightarrow> jsonschema_validate E v s \<noteq> Valid \<Longrightarrow>
     assigned E h (Some (s, x)) v = Some (s, x)"
  by (simp add: assigned_def)



lemma layered_run:
  "map_of i3 k = Some v \<Longrightarrow> layered E h i1 i2 i3 k = assigned E h (layered E h i1 i2 [] k) v"
  by (simp add: layered_def layer_def)

lemma layered_no_run:
  "map_of i3 k = None \<Longrightarrow> layered E h i1 i2 i3 k = layered E h i1 i2 [] k"
  by (simp add: layered_def layer_def)

lemma layered_step:
  "map_of i2 k = Some v \<Longrightarrow> layered E h i1 i2 [] k = assigned E h (layered E h i1 [] [] k) v"
  by (simp add: layered_def layer_def)

lemma layered_dag:
  "map_of i2 k = None \<Longrightarrow> map_of i1 k = Some v \<Longrightarrow> layered E h i1 i2 [] k = assigned E h None v"
  by (simp add: layered_def layer_def)

lemma run_value_plain:
  "well_formed_sources h i1 i2 i3 \<Longrightarrow> map_of i3 k = Some v \<Longrightarrow> as_Param v = None"
proof -
  assume wf: "well_formed_sources h i1 i2 i3" and m: "map_of i3 k = Some v"
  from m have "(k, v) \<in> set i3" by (rule map_of_SomeD)
  with wf show ?thesis unfolding well_formed_sources_def by blast
qed

section \<open>ParamsDict.update\<close>



section \<open>process_params: the three-layer merge\<close>

text \<open>
  C1 as the claim states it fails on two kinds of input. With \<^verbatim>\<open>suppress_exception\<close>
  true, the flag set and a non-empty run configuration, a run value that the schema of
  the existing entry rejects does not override: the step-level value \<open>2\<close> is returned
  for \<^verbatim>\<open>x\<close>, not the run value. And with one \<open>Param\<close> object bound to two keys of the
  workflow-level collection, assigning the run values mutates the shared object twice:
  \<^verbatim>\<open>a\<close> gets the run value of \<^verbatim>\<open>b\<close>, not its own.
\<close>

theorem C1_counterexample:
  "fst (process_params (sample_env True)
          (Some (ArgParamsDict \<lparr>dict = [(''x'', 0)], suppress_exception = False\<rparr>))
          (Some (ArgParamsDict \<lparr>dict = [(''x'', 1)], suppress_exception = False\<rparr>))
          (Some [(''x'', PyStr ''three'')]) True
          (heap_of [\<lparr>pvalue = PyInt 1, description = PyNone, schema = int_schema\<rparr>,
                    \<lparr>pvalue = PyInt 2, description = PyNone, schema = int_schema\<rparr>]))
      = Inr [(''x'', PyInt 2)]
 \<and> fst (process_params (sample_env True)
          (Some (ArgParamsDict \<lparr>dict = [(''a'', 0), (''b'', 0)], suppress_exception = False\<rparr>))
          None
          (Some [(''a'', PyInt 5), (''b'', PyInt 6)]) False
          (heap_of [\<lparr>pvalue = PyInt 1, description = PyNone, schema = PyDict []\<rparr>]))
      = Inr [(''a'', PyInt 6), (''b'', PyInt 6)]"
  by (simp add: eval_defs)

text \<open>
  C1, amended. When \<^verbatim>\<open>dag_run_conf_overrides_params\<close> is false, or the run
  configuration is empty, \<open>process_params\<close> does exactly what it does with no run
  configuration at all, in either mode. For well-formed sources:
  \<^item> when the strict pipeline returns a mapping, the pipeline returns that same mapping in
    either mode, and in it a key has the run-configuration value if the flag is set and
    the run configuration has the key; otherwise the step-level value if the step has the
    key; otherwise the workflow-level value;
  \<^item> whenever the pipeline returns a mapping, in either mode, the value of a key is what
    reading the key gives after the three layers have been assigned in order; so the
    run-configuration value wins when the entry below accepts it, without it the
    step-level value wins when it is accepted, and without both the workflow-level value
    when it is accepted, whatever happens to the other keys;
  \<^item> a run-configuration value that the schema of the entry below rejects (which only a
    lenient pipeline survives) does not override: the key reads as the entry below does.
\<close>

theorem C1_process_params_precedence:
  "(\<not> conf_getboolean E ''core'' ''dag_run_conf_overrides_params'' \<or> dagrun_conf = Some [] \<longrightarrow>
      process_params E dag_params task_params dagrun_conf suppress h
        = process_params E dag_params task_params None suppress h)
 \<and> map_of (run_items E dagrun_conf) k =
      (if conf_getboolean E ''core'' ''dag_run_conf_overrides_params''
       then map_of (case dagrun_conf of None \<Rightarrow> [] | Some c \<Rightarrow> c) k else None)
 \<and> (process_params E dag_params task_params dagrun_conf False h = (Inr m, h')
      \<and> well_formed_sources h (source_items dag_params) (source_items task_params)
            (run_items E dagrun_conf) \<longrightarrow>
      process_params E dag_params task_params dagrun_conf suppress h = (Inr m, h')
    \<and> map_of m k =
        (case map_of (run_items E dagrun_conf) k of
           Some v \<Rightarrow> Some v
         | None \<Rightarrow>
             (case map_of (source_items task_params) k of
                Some v \<Rightarrow> Some (entry_value h v)
              | None \<Rightarrow> map_option (entry_value h) (map_of (source_items dag_params) k))))
 \<and> (process_params E dag_params task_params dagrun_conf suppress h = (Inr m, h')
      \<and> well_formed_sources h (source_items dag_params) (source_items task_params)
            (run_items E dagrun_conf) \<longrightarrow>
      map_of m k = read_entry E
        (layered E h (source_items dag_params) (source_items task_params)
           (run_items E dagrun_conf) k)
    \<and> (map_of (run_items E dagrun_conf) k = Some v
          \<and> accepted E h
               (layered E h (source_items dag_params) (source_items task_params) [] k) v \<longrightarrow>
        map_of m k = Some v)
    \<and> (map_of (run_items E dagrun_conf) k = None
          \<and> map_of (source_items task_params) k = Some v
          \<and> accepted E h (layered E h (source_items dag_params) [] [] k) v \<longrightarrow>
        map_of m k = Some (entry_value h v))
    \<and> (map_of (run_items E dagrun_conf) k = None
          \<and> map_of (source_items task_params) k = None
          \<and> map_of (source_items dag_params) k = Some v
          \<and> accepted E h None v \<longrightarrow>
        map_of m k = Some (entry_value h v))
    \<and> (map_of (run_items E dagrun_conf) k = Some v
          \<and> layered E h (source_items dag_params) (source_items task_params) [] k = Some (s, x)
          \<and> jsonschema_validate E v s = Invalid msg \<longrightarrow>
        map_of m k = read_entry E (Some (s, x))))"
proof -
  let ?i1 = "source_items dag_params" and ?i2 = "source_items task_params"
    and ?i3 = "run_items E dagrun_conf"
  have gate: "\<not> conf_getboolean E ''core'' ''dag_run_conf_overrides_params'' \<or> dagrun_conf = Some [] \<longrightarrow>
      process_params E dag_params task_params dagrun_conf suppress h
        = process_params E dag_params task_params None suppress h"
    using process_params_gate [of E dagrun_conf dag_params task_params suppress h] by blast
  have r: "map_of ?i3 k =
      (if conf_getboolean E ''core'' ''dag_run_conf_overrides_params''
       then map_of (case dagrun_conf of None \<Rightarrow> [] | Some c \<Rightarrow> c) k else None)"
    by (simp add: run_items_def)
  have strict: "process_params E dag_params task_params dagrun_conf False h = (Inr m, h')
      \<and> well_formed_sources h ?i1 ?i2 ?i3 \<longrightarrow>
      process_params E dag_params task_params dagrun_conf suppress h = (Inr m, h')
    \<and> map_of m k =
        (case map_of ?i3 k of
           Some v \<Rightarrow> Some v
         | None \<Rightarrow>
             (case map_of ?i2 k of
                Some v \<Rightarrow> Some (entry_value h v)
              | None \<Rightarrow> map_option (entry_value h) (map_of ?i1 k)))"
    using process_params_any_mode [of E dag_params task_params dagrun_conf h m h' suppress]
      process_params_strict_precedence [of E dag_params task_params dagrun_conf h m h' k]
    by blast
  have both: "map_of m k = read_entry E (layered E h ?i1 ?i2 ?i3 k)
    \<and> (map_of ?i3 k = Some v \<and> accepted E h (layered E h ?i1 ?i2 [] k) v \<longrightarrow>
        map_of m k = Some v)
    \<and> (map_of ?i3 k = None \<and> map_of ?i2 k = Some v
          \<and> accepted E h (layered E h ?i1 [] [] k) v \<longrightarrow>
        map_of m k = Some (entry_value h v))
    \<and> (map_of ?i3 k = None \<and> map_of ?i2 k = None \<and> map_of ?i1 k = Some v
          \<and> accepted E h None v \<longrightarrow>
        map_of m k = Some (entry_value h v))
    \<and> (map_of ?i3 k = Some v \<and> layered E h ?i1 ?i2 [] k = Some (s, x)
          \<and> jsonschema_validate E v s = Invalid msg \<longrightarrow>
        map_of m k = read_entry E (Some (s, x)))"
    if run: "process_params E dag_params task_params dagrun_conf suppress h = (Inr m, h')"
      and wf: "well_formed_sources h ?i1 ?i2 ?i3"
  proof -
    from run wf have L: "map_of m k = read_entry E (layered E h ?i1 ?i2 ?i3 k)"
      by (rule process_params_layered)
    have b: "map_of m k = Some v"
      if "map_of ?i3 k = Some v" "accepted E h (layered E h ?i1 ?i2 [] k) v"
    proof -
      from run_value_plain [OF wf that(1)] have "entry_value h v = v"
        by (simp add: entry_value_def)
      with L layered_run [OF that(1), of E h ?i1 ?i2] accepted_read [OF that(2)]
      show ?thesis by simp
    qed
    have c: "map_of m k = Some (entry_value h v)"
      if "map_of ?i3 k = None" "map_of ?i2 k = Some v"
        "accepted E h (layered E h ?i1 [] [] k) v"
      using L layered_no_run [OF that(1), of E h ?i1 ?i2]
        layered_step [OF that(2), of E h ?i1] accepted_read [OF that(3)]
      by simp
    have d: "map_of m k = Some (entry_value h v)"
      if "map_of ?i3 k = None" "map_of ?i2 k = None" "map_of ?i1 k = Some v"
        "accepted E h None v"
      using L layered_no_run [OF that(1), of E h ?i1 ?i2]
        layered_dag [OF that(2,3), of E h] accepted_read [OF that(4)]
      by simp
    have e: "map_of m k = read_entry E (Some (s, x))"
      if "map_of ?i3 k = Some v" "layered E h ?i1 ?i2 [] k = Some (s, x)"
        "jsonschema_validate E v s = Invalid msg"
    proof -
      from that(3) have "jsonschema_validate E v s \<noteq> Valid" by simp
      from rejected_keeps [OF run_value_plain [OF wf that(1)] this, of h x]
        L layered_run [OF that(1), of E h ?i1 ?i2] that(2)
      show ?thesis by simp
    qed
    from L b c d e show ?thesis by blast
  qed
  from gate r strict both show ?thesis by blast
qed

theorem C1_process_params_precedence_witness:
  "well_formed_sources
     (heap_of [\<lparr>pvalue = PyInt 1, description = PyNone, schema = int_schema\<rparr>,
               \<lparr>pvalue = PyStr ''w'', description = PyNone, schema = int_schema\<rparr>,
               \<lparr>pvalue = PyInt 7, description = PyNone, schema = int_schema\<rparr>,
               \<lparr>pvalue = PyInt 10, description = PyNone, schema = int_schema\<rparr>,
               \<lparr>pvalue = PyInt 11, description = PyNone, schema = int_schema\<rparr>])
     (source_items (Some (ArgParamsDict \<lparr>dict = [(''x'', 0), (''y'', 1), (''s'', 2), (''r'', 3), (''d'', 4)],
                               suppress_exception = False\<rparr>)))
     (source_items (Some (ArgDict [(''x'', PyInt 2), (''s'', PyInt 8)])))
     (run_items (sample_env True) (Some [(''x'', PyInt 3), (''z'', PyInt 4), (''r'', PyStr ''bad'')]))
 \<and> fst (process_params (sample_env True)
          (Some (ArgParamsDict \<lparr>dict = [(''x'', 0), (''y'', 1), (''s'', 2), (''r'', 3), (''d'', 4)],
                               suppress_exception = False\<rparr>))
          (Some (ArgDict [(''x'', PyInt 2), (''s'', PyInt 8)]))
          (Some [(''x'', PyInt 3), (''z'', PyInt 4), (''r'', PyStr ''bad'')]) True
          (heap_of [\<lparr>pvalue = PyInt 1, description = PyNone, schema = int_schema\<rparr>,
               \<lparr>pvalue = PyStr ''w'', description = PyNone, schema = int_schema\<rparr>,
               \<lparr>pvalue = PyInt 7, description = PyNone, schema = int_schema\<rparr>,
               \<lparr>pvalue = PyInt 10, description = PyNone, schema = int_schema\<rparr>,
               \<lparr>pvalue = PyInt 11, description = PyNone, schema = int_schema\<rparr>]))
      = Inr [(''x'', PyInt 3), (''y'', PyNone), (''s'', PyInt 8), (''r'', PyInt 10), (''d'', PyInt 11),
            (''z'', PyInt 4)]
 \<and> fst (process_params (sample_env True)
          (Some (ArgParamsDict \<lparr>dict = [(''x'', 0), (''y'', 1), (''s'', 2), (''r'', 3), (''d'', 4)],
                               suppress_exception = False\<rparr>))
          (Some (ArgDict [(''x'', PyInt 2), (''s'', PyInt 8)]))
          (Some [(''x'', PyInt 3), (''z'', PyInt 4), (''r'', PyStr ''bad'')]) False
          (heap_of [\<lparr>pvalue = PyInt 1, description = PyNone, schema = int_schema\<rparr>,
               \<lparr>pvalue = PyStr ''w'', description = PyNone, schema = int_schema\<rparr>,
               \<lparr>pvalue = PyInt 7, description = PyNone, schema = int_schema\<rparr>,
               \<lparr>pvalue = PyInt 10, description = PyNone, schema = int_schema\<rparr>,
               \<lparr>pvalue = PyInt 11, description = PyNone, schema = int_schema\<rparr>]))
      = Inl (ParamValidationError ''Invalid input for param r: value is not of type integer'')
 \<and> fst (process_params (sample_env True)
          (Some (ArgParamsDict \<lparr>dict = [(''x'', 0), (''s'', 2)], suppress_exception = False\<rparr>))
          (Some (ArgDict [(''x'', PyInt 2), (''s'', PyInt 8)]))
          (Some [(''x'', PyInt 3), (''z'', PyInt 4)]) False
          (heap_of [\<lparr>pvalue = PyInt 1, description = PyNone, schema = int_schema\<rparr>,
               \<lparr>pvalue = PyStr ''w'', description = PyNone, schema = int_schema\<rparr>,
               \<lparr>pvalue = PyInt 7, description = PyNone, schema = int_schema\<rparr>,
               \<lparr>pvalue = PyInt 10, description = PyNone, schema = int_schema\<rparr>,
               \<lparr>pvalue = PyInt 11, description = PyNone, schema = int_schema\<rparr>]))
      = Inr [(''x'', PyInt 3), (''s'', PyInt 8), (''z'', PyInt 4)]
 \<and> fst (process_params (sample_env True)
          (Some (ArgParamsDict \<lparr>dict = [(''x'', 0), (''s'', 2)], suppress_exception = False\<rparr>))
          (Some (ArgDict [(''x'', PyInt 2), (''s'', PyInt 8)]))
          (Some [(''x'', PyInt 3), (''z'', PyInt 4)]) True
          (heap_of [\<lparr>pvalue = PyInt 1, description = PyNone, schema = int_schema\<rparr>,
               \<lparr>pvalue = PyStr ''w'', description = PyNone, schema = int_schema\<rparr>,
               \<lparr>pvalue = PyInt 7, description = PyNone, schema = int_schema\<rparr>,
               \<lparr>pvalue = PyInt 10, description = PyNone, schema = int_schema\<rparr>,
               \<lparr>pvalue = PyInt 11, description = PyNone, schema = int_schema\<rparr>]))
      = Inr [(''x'', PyInt 3), (''s'', PyInt 8), (''z'', PyInt 4)]
 \<and> fst (process_params (sample_env False)
          (Some (ArgParamsDict \<lparr>dict = [(''x'', 0), (''s'', 2)], suppress_exception = False\<rparr>))
          (Some (ArgDict [(''x'', PyInt 2), (''s'', PyInt 8)]))
          (Some [(''x'', PyInt 3), (''z'', PyInt 4)]) False
          (heap_of [\<lparr>pvalue = PyInt 1, description = PyNone, schema = int_schema\<rparr>,
               \<lparr>pvalue = PyStr ''w'', description = PyNone, schema = int_schema\<rparr>,
               \<lparr>pvalue = PyInt 7, description = PyNone, schema = int_schema\<rparr>,
               \<lparr>pvalue = PyInt 10, description = PyNone, schema = int_schema\<rparr>,
               \<lparr>pvalue = PyInt 11, description = PyNone, schema = int_schema\<rparr>]))
      = fst (process_params (sample_env False)
          (Some (ArgParamsDict \<lparr>dict = [(''x'', 0), (''s'', 2)], suppress_exception = False\<rparr>))
          (Some (ArgDict [(''x'', PyInt 2), (''s'', PyInt 8)]))
          None False
          (heap_of [\<lparr>pvalue = PyInt 1, description = PyNone, schema = int_schema\<rparr>,
               \<lparr>pvalue = PyStr ''w'', description = PyNone, schema = int_schema\<rparr>,
               \<lparr>pvalue = PyInt 7, description = PyNone, schema = int_schema\<rparr>,
               \<lparr>pvalue = PyInt 10, description = PyNone, schema = int_schema\<rparr>,
               \<lparr>pvalue = PyInt 11, description = PyNone, schema = int_schema\<rparr>]))"
proof -
  let ?E = "sample_env True"
  let ?h = "(heap_of [\<lparr>pvalue = PyInt 1, description = PyNone, schema = int_schema\<rparr>,
               \<lparr>pvalue = PyStr ''w'', description = PyNone, schema = int_schema\<rparr>,
               \<lparr>pvalue = PyInt 7, description = PyNone, schema = int_schema\<rparr>,
               \<lparr>pvalue = PyInt 10, description = PyNone, schema = int_schema\<rparr>,
               \<lparr>pvalue = PyInt 11, description = PyNone, schema = int_schema\<rparr>])"
  let ?dagA = "(Some (ArgParamsDict \<lparr>dict = [(''x'', 0), (''y'', 1), (''s'', 2), (''r'', 3), (''d'', 4)],
                               suppress_exception = False\<rparr>))"
  let ?dagB = "(Some (ArgParamsDict \<lparr>dict = [(''x'', 0), (''s'', 2)], suppress_exception = False\<rparr>))"
  let ?task = "(Some (ArgDict [(''x'', PyInt 2), (''s'', PyInt 8)]))"
  let ?confA = "(Some [(''x'', PyInt 3), (''z'', PyInt 4), (''r'', PyStr ''bad'')])"
  let ?confB = "(Some [(''x'', PyInt 3), (''z'', PyInt 4)])"
  let ?mA = "[(''x'', PyInt 3), (''y'', PyNone), (''s'', PyInt 8), (''r'', PyInt 10), (''d'', PyInt 11),
            (''z'', PyInt 4)]"
  let ?mB = "[(''x'', PyInt 3), (''s'', PyInt 8), (''z'', PyInt 4)]"
  have wfA: "well_formed_sources ?h (source_items ?dagA) (source_items ?task) (run_items ?E ?confA)"
    by (simp add: well_formed_sources_def run_items_def sample_env_def heap_of_def)
  have wfB: "well_formed_sources ?h (source_items ?dagB) (source_items ?task) (run_items ?E ?confB)"
    by (simp add: well_formed_sources_def run_items_def sample_env_def heap_of_def)
  have evA: "fst (process_params ?E ?dagA ?task ?confA True ?h) = Inr ?mA"
    by (simp add: eval_defs)
  then have runA: "process_params ?E ?dagA ?task ?confA True ?h
      = (Inr ?mA, snd (process_params ?E ?dagA ?task ?confA True ?h))"
    by (metis prod.collapse)
  have strictA: "fst (process_params ?E ?dagA ?task ?confA False ?h)
      = Inl (ParamValidationError ''Invalid input for param r: value is not of type integer'')"
    by (simp add: eval_defs invalid_input_msg_def)
  have evB: "fst (process_params ?E ?dagB ?task ?confB False ?h) = Inr ?mB"
    by (simp add: eval_defs)
  then have runB: "process_params ?E ?dagB ?task ?confB False ?h
      = (Inr ?mB, snd (process_params ?E ?dagB ?task ?confB False ?h))"
    by (metis prod.collapse)
  have off: "\<not> conf_getboolean (sample_env False) ''core'' ''dag_run_conf_overrides_params''"
    by (simp add: sample_env_def)
  note TA = C1_process_params_precedence [where E = ?E and dag_params = ?dagA and task_params = ?task
      and dagrun_conf = ?confA and h = ?h and suppress = True and m = ?mA
      and h' = "snd (process_params ?E ?dagA ?task ?confA True ?h)"]
  have ax: "map_of (run_items ?E ?confA) ''x'' = Some (PyInt 3)
      \<and> accepted ?E ?h (layered ?E ?h (source_items ?dagA) (source_items ?task) [] ''x'') (PyInt 3)"
    by (simp add: run_items_def accepted_def layered_def layer_def assigned_def entry_value_def
          sample_env_def heap_of_def int_schema_def)
  from TA [where k = "''x''" and v = "PyInt 3"] runA wfA ax
  have x: "map_of ?mA ''x'' = Some (PyInt 3)" by blast
  have as: "map_of (run_items ?E ?confA) ''s'' = None
      \<and> map_of (source_items ?task) ''s'' = Some (PyInt 8)
      \<and> accepted ?E ?h (layered ?E ?h (source_items ?dagA) [] [] ''s'') (PyInt 8)"
    by (simp add: run_items_def accepted_def layered_def layer_def assigned_def entry_value_def
          sample_env_def heap_of_def int_schema_def)
  from TA [where k = "''s''" and v = "PyInt 8"] runA wfA as
  have st: "map_of ?mA ''s'' = Some (entry_value ?h (PyInt 8))" by blast
  have ad: "map_of (run_items ?E ?confA) ''d'' = None
      \<and> map_of (source_items ?task) ''d'' = None
      \<and> map_of (source_items ?dagA) ''d'' = Some (PyParam 4)
      \<and> accepted ?E ?h None (PyParam 4)"
    by (simp add: run_items_def accepted_def entry_value_def
          sample_env_def heap_of_def int_schema_def)
  from TA [where k = "''d''" and v = "PyParam 4"] runA wfA ad
  have d: "map_of ?mA ''d'' = Some (entry_value ?h (PyParam 4))" by blast
  have ar: "map_of (run_items ?E ?confA) ''r'' = Some (PyStr ''bad'')
      \<and> layered ?E ?h (source_items ?dagA) (source_items ?task) [] ''r'' = Some (int_schema, PyInt 10)
      \<and> jsonschema_validate ?E (PyStr ''bad'') int_schema = Invalid ''value is not of type integer''"
    by (simp add: run_items_def layered_def layer_def assigned_def
          sample_env_def heap_of_def int_schema_def)
  from TA [where k = "''r''" and v = "PyStr ''bad''" and s = int_schema and x = "PyInt 10"
      and msg = "''value is not of type integer''"] runA wfA ar
  have rj: "map_of ?mA ''r'' = read_entry ?E (Some (int_schema, PyInt 10))" by blast
  from TA [where k = "''y''"] runA wfA
  have y: "map_of ?mA ''y'' = read_entry ?E
      (layered ?E ?h (source_items ?dagA) (source_items ?task) (run_items ?E ?confA) ''y'')"
    by blast
  from C1_process_params_precedence [where E = ?E and dag_params = ?dagB and task_params = ?task
      and dagrun_conf = ?confB and h = ?h and suppress = True and m = ?mB
      and h' = "snd (process_params ?E ?dagB ?task ?confB False ?h)" and k = "''s''"] runB wfB
  have lenB: "process_params ?E ?dagB ?task ?confB True ?h
      = (Inr ?mB, snd (process_params ?E ?dagB ?task ?confB False ?h))"
    and sB: "map_of ?mB ''s'' =
        (case map_of (run_items ?E ?confB) ''s'' of
           Some v \<Rightarrow> Some v
         | None \<Rightarrow>
             (case map_of (source_items ?task) ''s'' of
                Some v \<Rightarrow> Some (entry_value ?h v)
              | None \<Rightarrow> map_option (entry_value ?h) (map_of (source_items ?dagB) ''s'')))"
    by blast+
  from C1_process_params_precedence [where E = "sample_env False" and dag_params = ?dagB and task_params = ?task
      and dagrun_conf = ?confB and h = ?h and suppress = False] off
  have gate: "process_params (sample_env False) ?dagB ?task ?confB False ?h
      = process_params (sample_env False) ?dagB ?task None False ?h"
    by blast
  from wfA evA strictA evB lenB gate x st d rj y sB show ?thesis by simp
qed

end
